theory Spec2Isabelle
  imports Complex_Main "HOL-Library.Word"
begin

unbundle bit_operations_syntax

section \<open>Data model of the Cortex-A debug driver (cortexa.c)\<close>

type_synonym u8 = "8 word"
type_synonym u16 = "16 word"
type_synonym u32 = "32 word"
type_synonym u64 = "64 word"

text \<open>
  The exceptions of exception.h that the TRY\_CATCH blocks of cortexa.c tell apart.
\<close>

datatype exception = EXCEPTION_ERROR | EXCEPTION_TIMEOUT

text \<open>
  The ADIv5 access-port library and the platform hooks are external to the driver.
  One APB transaction (programming TAR, then the DRW access) either completes, with
  the word read back in the case of a read, or raises an exception. The outside world
  is a family of response sequences that the driver consumes in order; everything the
  driver asks of the outside world is logged as a request.
\<close>

datatype apb_result = Resp u32 | Raise exception

datatype request =
    Apb_write u32 u32
  | Apb_read u32
  | Dp_error
  | Srst_get
  | Srst_set bool
  | Delay nat
  | Gdb_out
  | Target_list_free
  | Morse

text \<open>The anonymous struct \<open>reg_cache\<close> of \<open>struct cortexa_priv\<close>.\<close>

record reg_cache_t =
  r :: "u32 list"
  cpsr :: u32
  fpscr :: u32
  d :: "u64 list"

text \<open>
  \<open>struct cortexa_priv\<close>, together with the one field of the generic target that the
  driver reads (\<open>regs_size\<close>) and the outside world. \<open>ahb\<close> is \<open>None\<close> for the C
  null pointer. \<open>hw_breakpoint\<close> is the 16-element array.
\<close>

record target =
  base :: u32
  ahb :: "nat option"
  reg_cache :: reg_cache_t
  hw_breakpoint_max :: nat
  hw_breakpoint :: "u32 list"
  bpc0 :: u32
  mmu_fault :: bool
  regs_size :: nat
  apb_resp :: "nat \<Rightarrow> apb_result"
  apb_count :: nat
  dp_err :: "nat \<Rightarrow> u32"
  dp_count :: nat
  srst_val :: "nat \<Rightarrow> bool"
  srst_count :: nat
  trace :: "request list"

text \<open>
  A driver routine runs on the target state and either returns a value or leaves by an
  exception (the longjmp of raise\_exception); the state changes made before the
  exception stay.
\<close>

type_synonym 'a cmd = "target \<Rightarrow> (exception + 'a) \<times> target"

definition returnE :: "'a \<Rightarrow> 'a cmd" where
  "returnE x = (\<lambda>t. (Inr x, t))"

definition bindE :: "'a cmd \<Rightarrow> ('a \<Rightarrow> 'b cmd) \<Rightarrow> 'b cmd" where
  "bindE m f = (\<lambda>t. case m t of (Inl e, t') \<Rightarrow> (Inl e, t') | (Inr x, t') \<Rightarrow> f x t')"

definition thenE :: "'a cmd \<Rightarrow> 'b cmd \<Rightarrow> 'b cmd" where
  "thenE m n = bindE m (\<lambda>_. n)"

definition modify :: "(target \<Rightarrow> target) \<Rightarrow> unit cmd" where
  "modify f = (\<lambda>t. (Inr (), f t))"

text \<open>
  \<open>TRY_CATCH (e, mask) { body }\<close>: an exception of the body that is in the mask is
  caught and reported in \<open>e.type\<close> (\<open>None\<close> for 0); any other one propagates.
\<close>

definition try_catch :: "exception set \<Rightarrow> 'a cmd \<Rightarrow> (exception option \<times> 'a option) cmd" where
  "try_catch caught body = (\<lambda>t. case body t of
      (Inl e, t') \<Rightarrow> if e \<in> caught then (Inr (Some e, None), t') else (Inl e, t')
    | (Inr x, t') \<Rightarrow> (Inr (None, Some x), t'))"

definition log_req :: "request \<Rightarrow> target \<Rightarrow> target" where
  "log_req q t = t\<lparr>trace := trace t @ [q]\<rparr>"

subsection \<open>Register numbers and bit masks\<close>

definition DBGDIDR :: u16 where "DBGDIDR = 0"
definition DBGDTRRX :: u16 where "DBGDTRRX = 32"
definition DBGITR :: u16 where "DBGITR = 33"
definition DBGDSCR :: u16 where "DBGDSCR = 34"
definition DBGDTRTX :: u16 where "DBGDTRTX = 35"
definition DBGDRCR :: u16 where "DBGDRCR = 36"

definition DBGDSCR_EXTDCCMODE_STALL :: u32 where "DBGDSCR_EXTDCCMODE_STALL = push_bit 20 1"
definition DBGDSCR_EXTDCCMODE_FAST :: u32 where "DBGDSCR_EXTDCCMODE_FAST = push_bit 20 2"
definition DBGDSCR_EXTDCCMODE_MASK :: u32 where "DBGDSCR_EXTDCCMODE_MASK = push_bit 20 3"
definition DBGDSCR_HDBGEN :: u32 where "DBGDSCR_HDBGEN = push_bit 14 1"
definition DBGDSCR_ITREN :: u32 where "DBGDSCR_ITREN = push_bit 13 1"
definition DBGDSCR_SDABORT_L :: u32 where "DBGDSCR_SDABORT_L = push_bit 6 1"
definition DBGDSCR_MOE_MASK :: u32 where "DBGDSCR_MOE_MASK = push_bit 2 0xf"
definition DBGDSCR_MOE_HALT_REQ :: u32 where "DBGDSCR_MOE_HALT_REQ = push_bit 2 0"
definition DBGDSCR_HALTED :: u32 where "DBGDSCR_HALTED = push_bit 0 1"

definition DBGDRCR_CSE :: u32 where "DBGDRCR_CSE = push_bit 2 1"
definition DBGDRCR_HRQ :: u32 where "DBGDRCR_HRQ = push_bit 0 1"

text \<open>\<open>DBGBVR(i)\<close> and \<open>DBGBCR(i)\<close>, passed to the 16-bit register parameter.\<close>

definition DBGBVR :: "nat \<Rightarrow> u16" where "DBGBVR i = of_nat (64 + i)"
definition DBGBCR :: "nat \<Rightarrow> u16" where "DBGBCR i = of_nat (80 + i)"

definition DBGBCR_BAS_ANY :: u32 where "DBGBCR_BAS_ANY = push_bit 5 0xf"
definition DBGBCR_BAS_LOW_HW :: u32 where "DBGBCR_BAS_LOW_HW = push_bit 5 0x3"
definition DBGBCR_BAS_HIGH_HW :: u32 where "DBGBCR_BAS_HIGH_HW = push_bit 5 0xc"
definition DBGBCR_EN :: u32 where "DBGBCR_EN = push_bit 0 1"

definition MCR :: u32 where "MCR = 0xee000010"
definition MRC :: u32 where "MRC = 0xee100010"

definition CPREG :: "u32 \<Rightarrow> u32 \<Rightarrow> u32 \<Rightarrow> u32 \<Rightarrow> u32 \<Rightarrow> u32 \<Rightarrow> u32" where
  "CPREG coproc opc1 rt crn crm opc2 =
     push_bit 21 opc1 OR push_bit 16 crn OR push_bit 12 rt OR
     push_bit 8 coproc OR push_bit 5 opc2 OR crm"

definition DBGDTRRXint :: u32 where "DBGDTRRXint = CPREG 14 0 0 0 5 0"
definition DBGDTRTXint :: u32 where "DBGDTRTXint = CPREG 14 0 0 0 5 0"
definition PAR :: u32 where "PAR = CPREG 15 0 0 7 4 0"
definition ATS1CPR :: u32 where "ATS1CPR = CPREG 15 0 0 7 8 0"

definition CPSR_THUMB :: u32 where "CPSR_THUMB = push_bit 5 1"

definition SIGINT :: int where "SIGINT = 2"
definition SIGTRAP :: int where "SIGTRAP = 5"
definition SIGLOST :: int where "SIGLOST = 29"

subsection \<open>APB transport\<close>

text \<open>
  \<open>apb_write\<close> and \<open>apb_read\<close>: the address is \<open>priv->base + 4*reg\<close>; the ADIv5
  calls that carry out the transaction are the external step, which takes the next
  response of the outside world.
\<close>

definition apb_write :: "u16 \<Rightarrow> u32 \<Rightarrow> unit cmd" where
  "apb_write reg val = (\<lambda>t.
     let addr = base t + 4 * ucast reg;
         t' = log_req (Apb_write addr val) (t\<lparr>apb_count := apb_count t + 1\<rparr>)
     in case apb_resp t (apb_count t) of
          Raise e \<Rightarrow> (Inl e, t')
        | Resp _ \<Rightarrow> (Inr (), t'))"

definition apb_read :: "u16 \<Rightarrow> u32 cmd" where
  "apb_read reg = (\<lambda>t.
     let addr = base t + 4 * ucast reg;
         t' = log_req (Apb_read addr) (t\<lparr>apb_count := apb_count t + 1\<rparr>)
     in case apb_resp t (apb_count t) of
          Raise e \<Rightarrow> (Inl e, t')
        | Resp v \<Rightarrow> (Inr v, t'))"

subsection \<open>CPU proxy: general-purpose registers through the DCC\<close>

definition read_gpreg :: "u8 \<Rightarrow> u32 cmd" where
  "read_gpreg regno =
     (let instr = MCR OR DBGDTRTXint OR push_bit 12 (ucast regno AND 0xf)
      in thenE (apb_write DBGITR instr) (apb_read DBGDTRTX))"

definition write_gpreg :: "u8 \<Rightarrow> u32 \<Rightarrow> unit cmd" where
  "write_gpreg regno val =
     thenE (apb_write DBGDTRRX val)
       (let instr = MRC OR DBGDTRRXint OR push_bit 12 (ucast regno AND 0xf)
        in apb_write DBGITR instr)"

subsection \<open>Address translation\<close>

definition va_to_pa :: "u32 \<Rightarrow> u32 cmd" where
  "va_to_pa va =
     thenE (write_gpreg 0 va)
    (thenE (apb_write DBGITR (MCR OR ATS1CPR))
    (thenE (apb_write DBGITR (MRC OR PAR))
    (bindE (read_gpreg 0) (\<lambda>par.
     thenE (modify (\<lambda>t. if par AND 1 \<noteq> 0 then t\<lparr>mmu_fault := True\<rparr> else t))
           (returnE ((par AND NOT 0xfff) OR (va AND 0xfff)))))))"

subsection \<open>Error query\<close>

text \<open>
  \<open>adiv5_dp_error\<close> belongs to the ADIv5 library: an external query that returns the
  error word of the debug port. It is only asked when an AHB access port is present.
\<close>

definition adiv5_dp_error :: "target \<Rightarrow> u32 \<times> target" where
  "adiv5_dp_error t =
     (dp_err t (dp_count t), log_req Dp_error (t\<lparr>dp_count := dp_count t + 1\<rparr>))"

definition cortexa_check_error :: "target \<Rightarrow> bool \<times> target" where
  "cortexa_check_error t =
     (case ahb t of
        None \<Rightarrow> (mmu_fault t, t\<lparr>mmu_fault := False\<rparr>)
      | Some _ \<Rightarrow>
          (let (e, t1) = adiv5_dp_error t;
               err = (e \<noteq> 0 \<or> mmu_fault t1)
           in (err, t1\<lparr>mmu_fault := False\<rparr>)))"

subsection \<open>Hardware breakpoints\<close>

definition bp_bas :: "u32 \<Rightarrow> u8 \<Rightarrow> u32" where
  "bp_bas addr len =
     (if len = 4 then DBGBCR_BAS_ANY
      else if addr AND 2 \<noteq> 0 then DBGBCR_BAS_HIGH_HW
      else DBGBCR_BAS_LOW_HW)"

text \<open>
  The scan of \<open>cortexa_set_hw_bp\<close>:
  \<open>for(i = 0; i < max; i++) if((hw_breakpoint[i] & 1) == 0) break;\<close>
  as a function of the table, the bound and the current index.
\<close>

function set_hw_bp_scan :: "u32 list \<Rightarrow> nat \<Rightarrow> nat \<Rightarrow> nat" where
  "set_hw_bp_scan bps n i =
     (if i < n then (if bps ! i AND 1 = 0 then i else set_hw_bp_scan bps n (i + 1))
      else i)"
  by pat_completeness auto
termination
  by (relation "measure (\<lambda>(bps, n, i). n - i)") auto

declare set_hw_bp_scan.simps [simp del]

definition cortexa_set_hw_bp :: "u32 \<Rightarrow> u8 \<Rightarrow> int cmd" where
  "cortexa_set_hw_bp addr len = (\<lambda>t.
     let i = set_hw_bp_scan (hw_breakpoint t) (hw_breakpoint_max t) 0
     in if i = hw_breakpoint_max t then (Inr (- 1), t)
        else
          (thenE (modify (\<lambda>t. t\<lparr>hw_breakpoint := (hw_breakpoint t)[i := addr OR 1]\<rparr>))
          (thenE (apb_write (DBGBVR i) (addr AND NOT 3))
          (let bpc = bp_bas addr len OR DBGBCR_EN
           in thenE (apb_write (DBGBCR i) bpc)
             (thenE (modify (\<lambda>t. if i = 0 then t\<lparr>bpc0 := bpc\<rparr> else t))
                    (returnE 0))))) t)"

text \<open>
  The scan of \<open>cortexa_clear_hw_bp\<close>:
  \<open>for (i = 0; i < max; i++) if ((hw_breakpoint[i] & ~1) == addr) break;\<close>
\<close>

function clear_hw_bp_scan :: "u32 list \<Rightarrow> nat \<Rightarrow> u32 \<Rightarrow> nat \<Rightarrow> nat" where
  "clear_hw_bp_scan bps n addr i =
     (if i < n then (if bps ! i AND NOT 1 = addr then i else clear_hw_bp_scan bps n addr (i + 1))
      else i)"
  by pat_completeness auto
termination
  by (relation "measure (\<lambda>(bps, n, addr, i). n - i)") auto

declare clear_hw_bp_scan.simps [simp del]

definition cortexa_clear_hw_bp :: "u32 \<Rightarrow> u8 \<Rightarrow> int cmd" where
  "cortexa_clear_hw_bp addr len = (\<lambda>t.
     let i = clear_hw_bp_scan (hw_breakpoint t) (hw_breakpoint_max t) addr 0
     in if i = hw_breakpoint_max t then (Inr (- 1), t)
        else
          (thenE (modify (\<lambda>t. t\<lparr>hw_breakpoint := (hw_breakpoint t)[i := 0]\<rparr>))
          (thenE (apb_write (DBGBCR i) 0)
          (thenE (modify (\<lambda>t. if i = 0 then t\<lparr>bpc0 := 0\<rparr> else t))
                 (returnE 0)))) t)"

subsection \<open>Counted loops\<close>

text \<open>
  \<open>for (i = start; i < n; i++) body(i);\<close> where the body may leave by an exception.
\<close>

function for_loop :: "nat \<Rightarrow> nat \<Rightarrow> (nat \<Rightarrow> unit cmd) \<Rightarrow> unit cmd" where
  "for_loop i n body t =
     (if i < n then
        (case body i t of
           (Inl e, t') \<Rightarrow> (Inl e, t')
         | (Inr _, t') \<Rightarrow> for_loop (i + 1) n body t')
      else (Inr (), t))"
  by pat_completeness auto
termination
  by (relation "measure (\<lambda>(i, n, body, t). n - i)") auto

declare for_loop.simps [simp del]

subsection \<open>Register cache\<close>

definition set_r :: "nat \<Rightarrow> u32 \<Rightarrow> target \<Rightarrow> target" where
  "set_r i v t = t\<lparr>reg_cache := (reg_cache t)\<lparr>r := (r (reg_cache t))[i := v]\<rparr>\<rparr>"

definition set_d :: "nat \<Rightarrow> u64 \<Rightarrow> target \<Rightarrow> target" where
  "set_d i v t = t\<lparr>reg_cache := (reg_cache t)\<lparr>d := (d (reg_cache t))[i := v]\<rparr>\<rparr>"

text \<open>
  \<open>cortexa_regs_read_internal\<close>, with one definition for each commented step of the
  function body, in the order of the source. In
  \<open>((uint64_t)read_gpreg(t, 1) << 32) | read_gpreg(t, 0)\<close> the two reads are taken in
  the order written.
\<close>

definition regs_read_gp :: "unit cmd" where
  "regs_read_gp =
     for_loop 0 15 (\<lambda>i. bindE (read_gpreg (of_nat i)) (\<lambda>v. modify (set_r i v)))"

definition regs_read_pc :: "unit cmd" where
  "regs_read_pc =
     thenE (apb_write DBGITR 0xe1a0000f)
           (bindE (read_gpreg 0) (\<lambda>pc. modify (set_r 15 pc)))"

definition regs_read_cpsr :: "unit cmd" where
  "regs_read_cpsr =
     thenE (apb_write DBGITR 0xE10F0000)
           (bindE (read_gpreg 0) (\<lambda>c.
              modify (\<lambda>t. t\<lparr>reg_cache := (reg_cache t)\<lparr>cpsr := c\<rparr>\<rparr>)))"

definition regs_read_fpscr :: "unit cmd" where
  "regs_read_fpscr =
     thenE (apb_write DBGITR 0xeef10a10)
           (bindE (read_gpreg 0) (\<lambda>f.
              modify (\<lambda>t. t\<lparr>reg_cache := (reg_cache t)\<lparr>fpscr := f\<rparr>\<rparr>)))"

definition regs_read_vfp :: "unit cmd" where
  "regs_read_vfp =
     for_loop 0 16 (\<lambda>i.
        thenE (apb_write DBGITR (0xEC510B10 OR of_nat i))
       (bindE (read_gpreg 1) (\<lambda>hi.
        bindE (read_gpreg 0) (\<lambda>lo.
        modify (set_d i (push_bit 32 (ucast hi) OR ucast lo))))))"

definition regs_adjust_pc :: "unit cmd" where
  "regs_adjust_pc =
     modify (\<lambda>t. set_r 15
        (r (reg_cache t) ! 15 -
           (if cpsr (reg_cache t) AND CPSR_THUMB \<noteq> 0 then 4 else 8)) t)"

definition cortexa_regs_read_internal :: "unit cmd" where
  "cortexa_regs_read_internal =
     thenE regs_read_gp
    (thenE regs_read_pc
    (thenE regs_read_cpsr
    (thenE regs_read_fpscr
    (thenE regs_read_vfp
           regs_adjust_pc))))"

text \<open>
  The register cache as the bytes that \<open>memcpy\<close> sees: the fields in their declared
  order without padding (offsets 0, 64, 68, 72; 200 bytes in all), each integer least
  significant byte first, as on the little-endian hosts the probe runs on.
\<close>

definition le_bytes :: "nat \<Rightarrow> 'a::len word \<Rightarrow> u8 list" where
  "le_bytes n w = map (\<lambda>k. ucast (drop_bit (8 * k) w)) [0..<n]"

fun le_word :: "u8 list \<Rightarrow> 'a::len word" where
  "le_word [] = 0"
| "le_word (b # bs) = ucast b OR push_bit 8 (le_word bs)"

fun words_of_bytes :: "nat \<Rightarrow> nat \<Rightarrow> u8 list \<Rightarrow> 'a::len word list" where
  "words_of_bytes sz 0 bs = []"
| "words_of_bytes sz (Suc n) bs = le_word (take sz bs) # words_of_bytes sz n (drop sz bs)"

definition reg_cache_bytes :: "reg_cache_t \<Rightarrow> u8 list" where
  "reg_cache_bytes c =
     concat (map (le_bytes 4) (r c)) @ le_bytes 4 (cpsr c) @ le_bytes 4 (fpscr c) @
     concat (map (le_bytes 8) (d c))"

definition reg_cache_of_bytes :: "u8 list \<Rightarrow> reg_cache_t" where
  "reg_cache_of_bytes bs =
     \<lparr>r = words_of_bytes 4 16 bs,
      cpsr = le_word (take 4 (drop 64 bs)),
      fpscr = le_word (take 4 (drop 68 bs)),
      d = words_of_bytes 8 16 (drop 72 bs)\<rparr>"

text \<open>
  \<open>cortexa_regs_read\<close>: \<open>memcpy(data, &priv->reg_cache, t->regs_size)\<close>; the result is
  the caller's buffer afterwards. \<open>cortexa_regs_write\<close> copies the other way.
\<close>

definition cortexa_regs_read :: "u8 list \<Rightarrow> target \<Rightarrow> u8 list" where
  "cortexa_regs_read data t =
     take (regs_size t) (reg_cache_bytes (reg_cache t)) @ drop (regs_size t) data"

definition cortexa_regs_write :: "u8 list \<Rightarrow> target \<Rightarrow> target" where
  "cortexa_regs_write data t =
     t\<lparr>reg_cache := reg_cache_of_bytes
         (take (regs_size t) data @ drop (regs_size t) (reg_cache_bytes (reg_cache t)))\<rparr>"

subsection \<open>Halt request and halt wait\<close>

definition cortexa_halt_request :: "unit cmd" where
  "cortexa_halt_request =
     bindE (try_catch {EXCEPTION_TIMEOUT} (apb_write DBGDRCR DBGDRCR_HRQ)) (\<lambda>(e, _).
       if e \<noteq> None then modify (log_req Gdb_out) else returnE ())"

definition cortexa_halt_wait :: "int cmd" where
  "cortexa_halt_wait =
     bindE (try_catch UNIV (apb_read DBGDSCR)) (\<lambda>(e, v).
       case e of
         Some EXCEPTION_ERROR \<Rightarrow>
           thenE (modify (log_req Target_list_free))
          (thenE (modify (log_req Morse))
                 (returnE SIGLOST))
       | Some EXCEPTION_TIMEOUT \<Rightarrow> returnE 0
       | None \<Rightarrow>
           (let dbgdscr = (case v of Some x \<Rightarrow> x | None \<Rightarrow> 0)
            in if dbgdscr AND DBGDSCR_HALTED = 0 then returnE 0
               else
                 (let dbgdscr = dbgdscr OR DBGDSCR_ITREN
                  in thenE (apb_write DBGDSCR dbgdscr)
                     (let sig = (if dbgdscr AND DBGDSCR_MOE_MASK = DBGDSCR_MOE_HALT_REQ
                                 then SIGINT else SIGTRAP)
                      in thenE cortexa_regs_read_internal (returnE sig)))))"

subsection \<open>Attach\<close>

text \<open>
  Modelled from the spec: the dispatch of the target facade. target.h is not part of
  the sources at hand; \<open>cortexa_probe\<close> installs \<open>cortexa_check_error\<close>,
  \<open>cortexa_halt_request\<close> and \<open>cortexa_halt_wait\<close> as the operations that
  \<open>target_check_error\<close>, \<open>target_halt_request\<close> and \<open>target_halt_wait\<close> call.
\<close>

definition target_check_error :: "target \<Rightarrow> bool \<times> target" where
  "target_check_error = cortexa_check_error"

definition target_halt_request :: "unit cmd" where
  "target_halt_request = cortexa_halt_request"

definition target_halt_wait :: "int cmd" where
  "target_halt_wait = cortexa_halt_wait"

text \<open>The platform hooks: reading the system reset line is a query of the outside world.\<close>

definition platform_srst_get_val :: "target \<Rightarrow> bool \<times> target" where
  "platform_srst_get_val t =
     (srst_val t (srst_count t), log_req Srst_get (t\<lparr>srst_count := srst_count t + 1\<rparr>))"

definition platform_srst_set_val :: "bool \<Rightarrow> unit cmd" where
  "platform_srst_set_val b = modify (log_req (Srst_set b))"

definition platform_delay :: "nat \<Rightarrow> target \<Rightarrow> target" where
  "platform_delay ms = log_req (Delay ms)"

text \<open>
  The polling loop of \<open>cortexa_attach\<close>,
  \<open>while(!platform_srst_get_val() && !target_halt_wait(t) && --tries) platform_delay(200);\<close>
  with the value of \<open>tries\<close> at loop exit as its result. \<open>tries\<close> starts at 10 and is
  positive whenever it is decremented, so it is a natural number here.
\<close>

function attach_poll :: "nat \<Rightarrow> nat cmd" where
  "attach_poll tries t =
     (case platform_srst_get_val t of
        (srst, t1) \<Rightarrow>
          if srst then (Inr tries, t1)
          else
            (case target_halt_wait t1 of
               (Inl e, t2) \<Rightarrow> (Inl e, t2)
             | (Inr sig, t2) \<Rightarrow>
                 if sig \<noteq> 0 then (Inr tries, t2)
                 else if tries - 1 = 0 then (Inr (tries - 1), t2)
                 else attach_poll (tries - 1) (platform_delay 200 t2)))"
  by pat_completeness auto
termination
  by (relation "measure (\<lambda>(tries, t). tries)") auto

declare attach_poll.simps [simp del]

text \<open>
  \<open>cortexa_attach\<close>: the steps up to the halt request, the polling loop, and the
  clearing of the breakpoints with the release of the reset line.
\<close>

definition attach_enable_halting :: "unit cmd" where
  "attach_enable_halting =
     thenE (\<lambda>t. (Inr (), snd (target_check_error t)))
    (bindE (apb_read DBGDSCR) (\<lambda>dbgdscr.
     let dbgdscr = dbgdscr OR (DBGDSCR_HDBGEN OR DBGDSCR_ITREN);
         dbgdscr = (dbgdscr AND NOT DBGDSCR_EXTDCCMODE_MASK) OR DBGDSCR_EXTDCCMODE_STALL
     in thenE (apb_write DBGDSCR dbgdscr)
              target_halt_request))"

definition clear_breakpoint :: "nat \<Rightarrow> unit cmd" where
  "clear_breakpoint i =
     thenE (apb_write (DBGBCR i) 0)
           (modify (\<lambda>t. t\<lparr>hw_breakpoint := (hw_breakpoint t)[i := 0]\<rparr>))"

definition attach_clear_breakpoints :: "bool cmd" where
  "attach_clear_breakpoints =
     thenE (\<lambda>t. for_loop 0 (hw_breakpoint_max t) clear_breakpoint t)
    (thenE (platform_srst_set_val False)
           (returnE True))"

definition cortexa_attach :: "bool cmd" where
  "cortexa_attach =
     thenE attach_enable_halting
    (bindE (attach_poll 10) (\<lambda>tries.
       if tries = 0 then returnE False
       else attach_clear_breakpoints))"

subsection \<open>Memory read through the CPU proxy\<close>

text \<open>
  The loop \<open>for (i = 0; i < words; i++) dest32[i] = apb_read(t, DBGDTRTX);\<close> with the
  words read so far.
\<close>

function slow_read_loop :: "nat \<Rightarrow> nat \<Rightarrow> u32 list \<Rightarrow> (u32 list) cmd" where
  "slow_read_loop i words dest32 t =
     (if i < words then
        (case apb_read DBGDTRTX t of
           (Inl e, t') \<Rightarrow> (Inl e, t')
         | (Inr v, t') \<Rightarrow> slow_read_loop (i + 1) words (dest32 @ [v]) t')
      else (Inr dest32, t))"
  by pat_completeness auto
termination
  by (relation "measure (\<lambda>(i, words, dest32, t). words - i)") auto

declare slow_read_loop.simps [simp del]

text \<open>
  \<open>cortexa_slow_mem_read\<close>, in the three stretches of the function body: up to the
  first, discarded read of DBGDTRTX (the result is the DBGDSCR value written for fast
  mode, which the function keeps in \<open>dbgdscr\<close>); the loop; and from the switch back to
  stall mode to the end. The result of the whole is the \<open>len\<close> bytes copied to
  \<open>dest\<close>. \<open>len\<close> is a \<open>size_t\<close>; \<open>len + (src & 3) + 3\<close> is taken to stay within its
  range (a buffer of \<open>len\<close> bytes exists), so the sum is computed without wrap-around.
  The words of \<open>dest32\<close> lie in memory least significant byte first.
\<close>

definition slow_mem_read_start :: "u32 \<Rightarrow> u32 cmd" where
  "slow_mem_read_start src =
     thenE (write_gpreg 0 (src AND NOT 3))
    (bindE (apb_read DBGDSCR) (\<lambda>dbgdscr.
     let dbgdscr = (dbgdscr AND NOT DBGDSCR_EXTDCCMODE_MASK) OR DBGDSCR_EXTDCCMODE_FAST
     in thenE (apb_write DBGDSCR dbgdscr)
       (thenE (apb_write DBGITR 0xecb05e01)
       (thenE (apb_read DBGDTRTX)
              (returnE dbgdscr)))))"

definition slow_mem_read_finish :: "u32 \<Rightarrow> unit cmd" where
  "slow_mem_read_finish dbgdscr =
     (let dbgdscr = (dbgdscr AND NOT DBGDSCR_EXTDCCMODE_MASK) OR DBGDSCR_EXTDCCMODE_STALL
      in thenE (apb_write DBGDSCR dbgdscr)
        (bindE (apb_read DBGDSCR) (\<lambda>dscr2.
           if dscr2 AND DBGDSCR_SDABORT_L \<noteq> 0
           then thenE (apb_write DBGDRCR DBGDRCR_CSE)
                      (modify (\<lambda>t. t\<lparr>mmu_fault := True\<rparr>))
           else thenE (apb_read DBGDTRTX) (returnE ()))))"

definition slow_mem_read_words :: "u32 \<Rightarrow> nat \<Rightarrow> nat" where
  "slow_mem_read_words src len = (len + unat (src AND 3) + 3) div 4"

definition cortexa_slow_mem_read :: "u32 \<Rightarrow> nat \<Rightarrow> (u8 list) cmd" where
  "cortexa_slow_mem_read src len =
     (let words = slow_mem_read_words src len
      in bindE (slow_mem_read_start src) (\<lambda>dbgdscr.
         bindE (slow_read_loop 0 words []) (\<lambda>dest32.
         let dest = take len (drop (unat (src AND 3)) (concat (map (le_bytes 4) dest32)))
         in thenE (slow_mem_read_finish dbgdscr) (returnE dest))))"

text \<open>
  The number of reads as the specification words it: the ceiling of the quotient
  \<open>(len + (addr & 3) + 3) / 4\<close>.
\<close>

definition spec_drain_reads :: "u32 \<Rightarrow> nat \<Rightarrow> nat" where
  "spec_drain_reads addr len = nat \<lceil>(real len + real (unat (addr AND 3)) + 3) / 4\<rceil>"

subsection \<open>Targets and call sequences used in the statements\<close>

text \<open>
  The size of the comparator bank as \<open>cortexa_probe\<close> computes it from DBGDIDR:
  \<open>((dbgdidr >> 24) & 15) + 1\<close>.
\<close>

definition probe_hw_breakpoint_max :: "u32 \<Rightarrow> nat" where
  "probe_hw_breakpoint_max dbgdidr = unat (drop_bit 24 dbgdidr AND 15) + 1"

text \<open>
  The shape of a target that \<open>cortexa_probe\<close> has set up: the arrays have their
  declared sizes and the comparator count stays within the breakpoint table.
\<close>

definition target_ok :: "target \<Rightarrow> bool" where
  "target_ok t \<longleftrightarrow>
     length (hw_breakpoint t) = 16 \<and> hw_breakpoint_max t \<le> 16 \<and>
     length (r (reg_cache t)) = 16 \<and> length (d (reg_cache t)) = 16"

text \<open>The comparators that \<open>cortexa_set_hw_bp\<close> regards as free: low bit zero.\<close>

definition free_slots :: "target \<Rightarrow> nat list" where
  "free_slots t = filter (\<lambda>i. hw_breakpoint t ! i AND 1 = 0) [0..<hw_breakpoint_max t]"

text \<open>The transport completes the next \<open>k\<close> transactions.\<close>

definition apb_ok :: "target \<Rightarrow> nat \<Rightarrow> bool" where
  "apb_ok t k \<longleftrightarrow> (\<forall>j<k. \<exists>v. apb_resp t (apb_count t + j) = Resp v)"

text \<open>
  The target as \<open>cortexa_probe\<close> leaves it on a part with \<open>n\<close> comparators and no AHB
  access port: \<open>calloc\<close> has zeroed the private state, \<open>regs_size\<close> is the size of the
  register cache. The transport answers are a parameter.
\<close>

definition probed_target :: "nat \<Rightarrow> (nat \<Rightarrow> apb_result) \<Rightarrow> target" where
  "probed_target n f =
     \<lparr>base = 0x80090000, ahb = None,
      reg_cache = \<lparr>r = replicate 16 0, cpsr = 0, fpscr = 0, d = replicate 16 0\<rparr>,
      hw_breakpoint_max = n, hw_breakpoint = replicate 16 0, bpc0 = 0,
      mmu_fault = False, regs_size = 200,
      apb_resp = f, apb_count = 0,
      dp_err = (\<lambda>_. 0), dp_count = 0,
      srst_val = (\<lambda>_. False), srst_count = 0,
      trace = []\<rparr>"

text \<open>The requests that a routine adds to the log.\<close>

definition new_requests :: "target \<Rightarrow> target \<Rightarrow> request list" where
  "new_requests t t' = drop (length (trace t)) (trace t')"

text \<open>A debugger session that sets breakpoints one after the other.\<close>

fun set_hw_bps :: "(u32 \<times> u8) list \<Rightarrow> target \<Rightarrow> (exception + int) list \<times> target" where
  "set_hw_bps [] t = ([], t)"
| "set_hw_bps ((addr, len) # bps) t =
     (case cortexa_set_hw_bp addr len t of
        (res, t') \<Rightarrow> (case set_hw_bps bps t' of (ress, t'') \<Rightarrow> (res # ress, t'')))"

text \<open>The state after \<open>k\<close> calls of \<open>cortexa_check_error\<close>.\<close>

definition check_error_times :: "nat \<Rightarrow> target \<Rightarrow> target" where
  "check_error_times k = (\<lambda>t. snd (cortexa_check_error t)) ^^ k"

text \<open>The transport completes every transaction.\<close>

definition apb_reliable :: "target \<Rightarrow> bool" where
  "apb_reliable t \<longleftrightarrow> (\<forall>n. \<exists>v. apb_resp t n = Resp v)"

text \<open>
  The comparators that the scan of \<open>cortexa_clear_hw_bp\<close> accepts for \<open>addr\<close>, in
  increasing order.
\<close>

definition matching_slots :: "target \<Rightarrow> u32 \<Rightarrow> nat list" where
  "matching_slots t addr =
     filter (\<lambda>i. hw_breakpoint t ! i AND NOT 1 = addr) [0..<hw_breakpoint_max t]"


text \<open>
  A poll of \<open>cortexa_halt_wait\<close> that finds the core not halted: the read of DBGDSCR
  times out, or it delivers a word with the HALTED bit clear.
\<close>

definition not_halted :: "apb_result \<Rightarrow> bool" where
  "not_halted x \<longleftrightarrow>
     (case x of Raise e \<Rightarrow> e = EXCEPTION_TIMEOUT | Resp v \<Rightarrow> v AND DBGDSCR_HALTED = 0)"

text \<open>
  The first three transactions of \<open>cortexa_attach\<close> go through: the read and the
  write of DBGDSCR complete, and the halt request does not end in an error (a timeout
  of the halt request is caught).
\<close>

definition attach_prelude_ok :: "target \<Rightarrow> bool" where
  "attach_prelude_ok t \<longleftrightarrow>
     apb_ok t 2 \<and> apb_resp t (apb_count t + 2) \<noteq> Raise EXCEPTION_ERROR"

text \<open>The requests that go to the platform hooks: the reset line and the delay.\<close>

fun platform_request :: "request \<Rightarrow> bool" where
  "platform_request Srst_get = True"
| "platform_request (Srst_set b) = True"
| "platform_request (Delay ms) = True"
| "platform_request q = False"

text \<open>The requests of \<open>n\<close> polls that all find the core running and reset deasserted.\<close>

definition failed_polls :: "u32 \<Rightarrow> nat \<Rightarrow> request list" where
  "failed_polls b n =
     concat (replicate (n - 1) [Srst_get, Apb_read (b + 4 * ucast DBGDSCR), Delay 200]) @
     [Srst_get, Apb_read (b + 4 * ucast DBGDSCR)]"

text \<open>The writes that zero the control registers of comparators \<open>0 .. n-1\<close>.\<close>

definition zero_bcr_writes :: "u32 \<Rightarrow> nat \<Rightarrow> request list" where
  "zero_bcr_writes b n = map (\<lambda>i. Apb_write (b + 4 * ucast (DBGBCR i)) 0) [0..<n]"

text \<open>A routine keeps a property of the target, however it ends.\<close>

definition preserves :: "(target \<Rightarrow> bool) \<Rightarrow> 'a cmd \<Rightarrow> bool" where
  "preserves P m \<longleftrightarrow> (\<forall>s. P s \<longrightarrow> P (snd (m s)))"

text \<open>
  A property of the driver's own data: it does not depend on how far the transport
  has been consumed nor on the log.
\<close>

definition transport_free :: "(target \<Rightarrow> bool) \<Rightarrow> bool" where
  "transport_free P \<longleftrightarrow> (\<forall>s k tr. P s \<longrightarrow> P (s\<lparr>apb_count := k, trace := tr\<rparr>))"

text \<open>The word that a completed transaction delivers.\<close>

fun resp_val :: "apb_result \<Rightarrow> u32" where
  "resp_val (Resp v) = v"
| "resp_val (Raise e) = 0"

text \<open>
  The requests of \<open>cortexa_attach\<close> up to and including the halt request: the error
  query of the debug port when there is an AHB access port, the read of DBGDSCR, the
  write that sets HDBGEN and ITREN and selects the stall mode of the DCC in the word
  read, and the write of HRQ to DBGDRCR; a halt request that times out is reported
  through \<open>gdb_out\<close>.
\<close>

definition attach_prelude_requests :: "target \<Rightarrow> request list" where
  "attach_prelude_requests t =
     (case ahb t of None \<Rightarrow> [] | Some a \<Rightarrow> [Dp_error]) @
     [Apb_read (base t + 4 * ucast DBGDSCR),
      Apb_write (base t + 4 * ucast DBGDSCR)
        (((resp_val (apb_resp t (apb_count t)) OR (DBGDSCR_HDBGEN OR DBGDSCR_ITREN))
            AND NOT DBGDSCR_EXTDCCMODE_MASK) OR DBGDSCR_EXTDCCMODE_STALL),
      Apb_write (base t + 4 * ucast DBGDRCR) DBGDRCR_HRQ] @
     (if apb_resp t (apb_count t + 2) = Raise EXCEPTION_TIMEOUT then [Gdb_out] else [])"

text \<open>The requests of \<open>k\<close> polls that are each followed by the delay.\<close>

definition delayed_polls :: "u32 \<Rightarrow> nat \<Rightarrow> request list" where
  "delayed_polls b k =
     concat (replicate k [Srst_get, Apb_read (b + 4 * ucast DBGDSCR), Delay 200])"

text \<open>The reads of DBGDTRTX among the requests.\<close>

definition dtrtx_reads :: "u32 \<Rightarrow> request list \<Rightarrow> nat" where
  "dtrtx_reads b qs = length (filter (\<lambda>q. q = Apb_read (b + 4 * ucast DBGDTRTX)) qs)"

section \<open>Basic facts about the command combinators and the transport\<close>

lemma returnE_apply: "returnE x t = (Inr x, t)"
  by (simp add: returnE_def)

lemma modify_apply: "modify f t = (Inr (), f t)"
  by (simp add: modify_def)

lemma bindE_apply:
  "bindE m f t = (case m t of (Inl e, t') \<Rightarrow> (Inl e, t') | (Inr x, t') \<Rightarrow> f x t')"
  by (simp add: bindE_def)

lemma thenE_apply:
  "thenE m n t = (case m t of (Inl e, t') \<Rightarrow> (Inl e, t') | (Inr x, t') \<Rightarrow> n t')"
  by (simp add: thenE_def bindE_def)

lemmas monad_simps = returnE_apply modify_apply bindE_apply thenE_apply

lemma bindE_InrE:
  assumes "bindE m f t = (Inr y, t')"
  obtains x t1 where "m t = (Inr x, t1)" and "f x t1 = (Inr y, t')"
  using assms by (auto simp: bindE_def split: prod.splits sum.splits)

lemma thenE_InrE:
  assumes "thenE m n t = (Inr y, t')"
  obtains x t1 where "m t = (Inr x, t1)" and "n t1 = (Inr y, t')"
  using assms by (auto simp: thenE_def bindE_def split: prod.splits sum.splits)

lemma apb_write_Resp:
  "apb_resp t (apb_count t) = Resp v \<Longrightarrow>
   apb_write reg val t =
     (Inr (), t\<lparr>apb_count := apb_count t + 1,
               trace := trace t @ [Apb_write (base t + 4 * ucast reg) val]\<rparr>)"
  by (simp add: apb_write_def log_req_def)

lemma apb_read_Resp:
  "apb_resp t (apb_count t) = Resp v \<Longrightarrow>
   apb_read reg t =
     (Inr v, t\<lparr>apb_count := apb_count t + 1,
              trace := trace t @ [Apb_read (base t + 4 * ucast reg)]\<rparr>)"
  by (simp add: apb_read_def log_req_def)

lemma apb_okD: "apb_ok t k \<Longrightarrow> j < k \<Longrightarrow> \<exists>v. apb_resp t (apb_count t + j) = Resp v"
  by (simp add: apb_ok_def)

section \<open>Address translation\<close>

lemma pa_low: "((par AND NOT 0xfff) OR (va AND 0xfff)) AND 0xfff = va AND (0xfff::u32)"
  by (simp add: word_ao_dist and.assoc)

lemma va_to_pa_run:
  assumes ok: "apb_ok t 5" and par: "apb_resp t (apb_count t + 5) = Resp par"
  shows "va_to_pa va t =
     (Inr ((par AND NOT 0xfff) OR (va AND 0xfff)),
      t\<lparr>mmu_fault := (par AND 1 \<noteq> 0 \<or> mmu_fault t),
        apb_count := apb_count t + 6,
        trace := trace t @
          [Apb_write (base t + 4 * ucast DBGDTRRX) va,
           Apb_write (base t + 4 * ucast DBGITR)
             (MRC OR DBGDTRRXint OR push_bit 12 (ucast (0::u8) AND 0xf)),
           Apb_write (base t + 4 * ucast DBGITR) (MCR OR ATS1CPR),
           Apb_write (base t + 4 * ucast DBGITR) (MRC OR PAR),
           Apb_write (base t + 4 * ucast DBGITR)
             (MCR OR DBGDTRTXint OR push_bit 12 (ucast (0::u8) AND 0xf)),
           Apb_read (base t + 4 * ucast DBGDTRTX)]\<rparr>)"
proof -
  obtain v0 where v0: "apb_resp t (apb_count t) = Resp v0"
    using apb_okD[OF ok, of 0] by auto
  obtain v1 where v1: "apb_resp t (Suc (apb_count t)) = Resp v1"
    using apb_okD[OF ok, of 1] by auto
  obtain v2 where v2: "apb_resp t (Suc (Suc (apb_count t))) = Resp v2"
    using apb_okD[OF ok, of 2] by (auto simp: eval_nat_numeral)
  obtain v3 where v3: "apb_resp t (Suc (Suc (Suc (apb_count t)))) = Resp v3"
    using apb_okD[OF ok, of 3] by (auto simp: eval_nat_numeral)
  obtain v4 where v4: "apb_resp t (Suc (Suc (Suc (Suc (apb_count t))))) = Resp v4"
    using apb_okD[OF ok, of 4] by (auto simp: eval_nat_numeral)
  have v5: "apb_resp t (Suc (Suc (Suc (Suc (Suc (apb_count t)))))) = Resp par"
    using par by (auto simp: eval_nat_numeral)
  show ?thesis
    by (cases "par AND 1 = 0")
       (simp_all add: va_to_pa_def write_gpreg_def read_gpreg_def monad_simps
          apb_write_Resp apb_read_Resp v0 v1 v2 v3 v4 v5 Let_def)
qed

lemma va_to_pa_value:
  assumes "va_to_pa va t = (Inr pa, t')"
  shows "\<exists>par. pa = (par AND NOT 0xfff) OR (va AND 0xfff)"
  using assms unfolding va_to_pa_def
  by (elim thenE_InrE bindE_InrE) (auto simp: returnE_def)

text \<open>
  Claim C6. Whenever \<open>va_to_pa\<close> returns, the low 12 bits of the physical address are
  those of the virtual address. When the transport completes the six transactions of
  the translation and the last one, the read of r0 holding the PAR, delivers \<open>par\<close>,
  the routine returns \<open>(par & ~0xfff) | (va & 0xfff)\<close> whether or not the translation
  faulted; \<open>mmu_fault\<close> is set when bit 0 of \<open>par\<close> is set and keeps its value otherwise.
\<close>

theorem va_to_pa_correct:
  "(\<forall>pa t'. va_to_pa va t = (Inr pa, t') \<longrightarrow> pa AND 0xfff = va AND 0xfff) \<and>
   (\<forall>par. apb_ok t 5 \<and> apb_resp t (apb_count t + 5) = Resp par \<longrightarrow>
      fst (va_to_pa va t) = Inr ((par AND NOT 0xfff) OR (va AND 0xfff)) \<and>
      mmu_fault (snd (va_to_pa va t)) = (if par AND 1 \<noteq> 0 then True else mmu_fault t))"
proof (intro conjI allI impI)
  fix pa t' assume "va_to_pa va t = (Inr pa, t')"
  then obtain par where "pa = (par AND NOT 0xfff) OR (va AND 0xfff)"
    using va_to_pa_value by blast
  then show "pa AND 0xfff = va AND 0xfff" by (simp only: pa_low)
next
  fix par assume "apb_ok t 5 \<and> apb_resp t (apb_count t + 5) = Resp par"
  then show "fst (va_to_pa va t) = Inr ((par AND NOT 0xfff) OR (va AND 0xfff))"
    by (simp add: va_to_pa_run)
next
  fix par assume "apb_ok t 5 \<and> apb_resp t (apb_count t + 5) = Resp par"
  then show "mmu_fault (snd (va_to_pa va t)) = (if par AND 1 \<noteq> 0 then True else mmu_fault t)"
    by (simp add: va_to_pa_run)
qed

theorem va_to_pa_correct_witness:
  "apb_ok (probed_target 6 (\<lambda>_. Resp 0x12345001)) 5 \<and>
   fst (va_to_pa 0xdeadbeef (probed_target 6 (\<lambda>_. Resp 0x12345001))) = Inr 0x12345eef \<and>
   (0x12345eef :: u32) AND 0xfff = 0xdeadbeef AND 0xfff \<and>
   mmu_fault (snd (va_to_pa 0xdeadbeef (probed_target 6 (\<lambda>_. Resp 0x12345001))))"
proof -
  let ?t = "probed_target 6 (\<lambda>_. Resp 0x12345001)"
  have ok: "apb_ok ?t 5" by (simp add: apb_ok_def probed_target_def)
  have r: "apb_resp ?t (apb_count ?t + 5) = Resp 0x12345001" by (simp add: probed_target_def)
  have "fst (va_to_pa 0xdeadbeef ?t) =
          Inr ((0x12345001 AND NOT 0xfff) OR (0xdeadbeef AND 0xfff)) \<and>
        mmu_fault (snd (va_to_pa 0xdeadbeef ?t)) =
          (if (0x12345001::u32) AND 1 \<noteq> 0 then True else mmu_fault ?t)"
    using va_to_pa_correct [of "0xdeadbeef" ?t] ok r by blast
  then show ?thesis using ok by simp
qed

section \<open>Error query\<close>

lemma check_error_mmu [simp]: "mmu_fault (snd (cortexa_check_error t)) = False"
  by (simp add: cortexa_check_error_def adiv5_dp_error_def log_req_def split: option.splits)

lemma check_error_ahb [simp]: "ahb (snd (cortexa_check_error t)) = ahb t"
  by (simp add: cortexa_check_error_def adiv5_dp_error_def log_req_def split: option.splits)

lemma check_error_dp_err [simp]: "dp_err (snd (cortexa_check_error t)) = dp_err t"
  by (simp add: cortexa_check_error_def adiv5_dp_error_def log_req_def split: option.splits)

lemma check_error_value:
  "fst (cortexa_check_error t) =
     ((ahb t \<noteq> None \<and> dp_err t (dp_count t) \<noteq> 0) \<or> mmu_fault t)"
  by (auto simp add: cortexa_check_error_def adiv5_dp_error_def log_req_def split: option.splits)

lemma check_error_times_Suc:
  "mmu_fault (check_error_times (Suc k) t) = False \<and>
   ahb (check_error_times (Suc k) t) = ahb t \<and>
   dp_err (check_error_times (Suc k) t) = dp_err t"
  by (induction k) (simp_all add: check_error_times_def)

text \<open>
  Claim C2. \<open>cortexa_check_error\<close> returns true exactly when an AHB access port is
  present and its debug port reports an error, or \<open>mmu_fault\<close> is set; it always
  leaves \<open>mmu_fault\<close> cleared. Hence, with \<open>mmu_fault\<close> set and no transport error
  (no AHB port, or a debug port that reports none), the first call returns true and
  every later call returns false.
\<close>

theorem check_error_correct:
  "fst (cortexa_check_error t) =
     ((ahb t \<noteq> None \<and> dp_err t (dp_count t) \<noteq> 0) \<or> mmu_fault t) \<and>
   mmu_fault (snd (cortexa_check_error t)) = False \<and>
   (mmu_fault t \<and> (ahb t = None \<or> (\<forall>n. dp_err t n = 0)) \<longrightarrow>
      fst (cortexa_check_error t) = True \<and>
      (\<forall>k. fst (cortexa_check_error (check_error_times (Suc k) t)) = False))"
  using check_error_times_Suc by (auto simp: check_error_value)

theorem check_error_correct_witness:
  "mmu_fault ((probed_target 6 (\<lambda>_. Resp 0))\<lparr>mmu_fault := True\<rparr>) \<and>
   ahb ((probed_target 6 (\<lambda>_. Resp 0))\<lparr>mmu_fault := True\<rparr>) = None \<and>
   fst (cortexa_check_error ((probed_target 6 (\<lambda>_. Resp 0))\<lparr>mmu_fault := True\<rparr>)) = True \<and>
   fst (cortexa_check_error (check_error_times (Suc 0)
         ((probed_target 6 (\<lambda>_. Resp 0))\<lparr>mmu_fault := True\<rparr>))) = False"
  using check_error_correct [of "(probed_target 6 (\<lambda>_. Resp 0))\<lparr>mmu_fault := True\<rparr>"]
  by (simp add: probed_target_def)

section \<open>Hardware breakpoints\<close>

lemma set_hw_bp_scan_conv:
  "i \<le> n \<Longrightarrow> set_hw_bp_scan bps n i =
     (case filter (\<lambda>j. bps ! j AND 1 = 0) [i..<n] of [] \<Rightarrow> n | j # _ \<Rightarrow> j)"
proof (induction bps n i rule: set_hw_bp_scan.induct)
  case (1 bps n i)
  show ?case
  proof (cases "i < n")
    case True
    then have upt: "[i..<n] = i # [Suc i..<n]" by (simp add: upt_conv_Cons)
    show ?thesis
    proof (cases "bps ! i AND 1 = 0")
      case free: True
      then show ?thesis using True upt by (simp add: set_hw_bp_scan.simps)
    next
      case False
      then have "set_hw_bp_scan bps n i = set_hw_bp_scan bps n (i + 1)"
        using True by (simp add: set_hw_bp_scan.simps)
      also have "\<dots> = (case filter (\<lambda>j. bps ! j AND 1 = 0) [i + 1..<n] of [] \<Rightarrow> n | j # _ \<Rightarrow> j)"
        using "1.IH" True False by simp
      finally show ?thesis using False upt by simp
    qed
  next
    case False
    with "1.prems" show ?thesis by (simp add: set_hw_bp_scan.simps)
  qed
qed

lemma clear_hw_bp_scan_conv:
  "i \<le> n \<Longrightarrow> clear_hw_bp_scan bps n addr i =
     (case filter (\<lambda>j. bps ! j AND NOT 1 = addr) [i..<n] of [] \<Rightarrow> n | j # _ \<Rightarrow> j)"
proof (induction bps n addr i rule: clear_hw_bp_scan.induct)
  case (1 bps n addr i)
  show ?case
  proof (cases "i < n")
    case True
    then have upt: "[i..<n] = i # [Suc i..<n]" by (simp add: upt_conv_Cons)
    show ?thesis
    proof (cases "bps ! i AND NOT 1 = addr")
      case hit: True
      then show ?thesis using True upt by (simp add: clear_hw_bp_scan.simps)
    next
      case False
      then have "clear_hw_bp_scan bps n addr i = clear_hw_bp_scan bps n addr (i + 1)"
        using True by (simp add: clear_hw_bp_scan.simps)
      also have "\<dots> = (case filter (\<lambda>j. bps ! j AND NOT 1 = addr) [i + 1..<n] of [] \<Rightarrow> n | j # _ \<Rightarrow> j)"
        using "1.IH" True False by simp
      finally show ?thesis using False upt by simp
    qed
  next
    case False
    with "1.prems" show ?thesis by (simp add: clear_hw_bp_scan.simps)
  qed
qed

text \<open>The head of a filtered interval is its least element with the property.\<close>

lemma filter_upt_Cons:
  assumes "filter P [0..<n] = i # rest"
  shows "i < n \<and> P i \<and> (\<forall>j<i. \<not> P j) \<and> rest = filter P [Suc i..<n]"
proof -
  have mem: "i \<in> set (filter P [0..<n])" using assms by simp
  then have i: "i < n" "P i" by auto
  have split: "[0..<n] = [0..<i] @ i # [Suc i..<n]"
  proof -
    have "[0..<i + (n - i)] = [0..<i] @ [i..<i + (n - i)]" by (rule upt_add_eq_append) simp
    then show ?thesis using i(1) by (simp add: upt_conv_Cons)
  qed
  have "filter P [0..<n] = filter P [0..<i] @ i # filter P [Suc i..<n]"
    using i(2) by (subst split) simp
  with assms have eq: "filter P [0..<i] @ i # filter P [Suc i..<n] = i # rest" by simp
  have "filter P [0..<i] = []"
  proof (cases "filter P [0..<i]")
    case Nil then show ?thesis .
  next
    case (Cons a as)
    with eq have "a = i" by simp
    moreover have "a \<in> set (filter P [0..<i])" using Cons by simp
    ultimately show ?thesis by simp
  qed
  then have "\<forall>j<i. \<not> P j" by (auto simp: filter_empty_conv)
  moreover have "rest = filter P [Suc i..<n]" using eq \<open>filter P [0..<i] = []\<close> by simp
  ultimately show ?thesis using i by simp
qed


lemma mask1: "(x AND NOT 1) AND 1 = (0::u32)"
  by (simp add: and.assoc)

lemma or1_low: "(addr OR 1) AND 1 \<noteq> (0::u32)"
proof
  assume "(addr OR 1) AND 1 = (0::u32)"
  then have "\<not> bit ((addr OR 1) AND 1 :: u32) 0" by simp
  then show False by (simp add: bit_simps)
qed

lemma odd_or1: "addr AND 1 \<noteq> 0 \<Longrightarrow> addr OR 1 = (addr::u32)"
  by (simp add: and_one_eq or_one_eq) (metis odd_iff_mod_2_eq_one)

lemma odd_no_match: "addr AND 1 \<noteq> 0 \<Longrightarrow> x AND NOT 1 \<noteq> (addr::u32)"
  using mask1 by blast


lemma set_hw_bp_full:
  assumes "free_slots t = []"
  shows "cortexa_set_hw_bp addr len t = (Inr (- 1), t)"
  using assms by (simp add: cortexa_set_hw_bp_def set_hw_bp_scan_conv free_slots_def)

lemma set_hw_bp_run:
  assumes fr: "free_slots t = i # rest" and apb: "apb_ok t 2"
  shows "cortexa_set_hw_bp addr len t =
     (Inr 0, t\<lparr>hw_breakpoint := (hw_breakpoint t)[i := addr OR 1],
              bpc0 := (if i = 0 then bp_bas addr len OR DBGBCR_EN else bpc0 t),
              apb_count := apb_count t + 2,
              trace := trace t @
                [Apb_write (base t + 4 * ucast (DBGBVR i)) (addr AND NOT 3),
                 Apb_write (base t + 4 * ucast (DBGBCR i)) (bp_bas addr len OR DBGBCR_EN)]\<rparr>)"
proof -
  have i: "i < hw_breakpoint_max t"
    using filter_upt_Cons[OF fr[unfolded free_slots_def]] by simp
  have scan: "set_hw_bp_scan (hw_breakpoint t) (hw_breakpoint_max t) 0 = i"
    using fr by (simp add: set_hw_bp_scan_conv free_slots_def)
  obtain v0 where v0: "apb_resp t (apb_count t) = Resp v0" using apb_okD[OF apb, of 0] by auto
  obtain v1 where v1: "apb_resp t (Suc (apb_count t)) = Resp v1" using apb_okD[OF apb, of 1] by auto
  show ?thesis using i
    by (cases "i = 0")
       (simp_all add: cortexa_set_hw_bp_def scan Let_def monad_simps apb_write_Resp v0 v1)
qed

lemma upt_split_at:
  assumes "i < n"
  shows "[0..<n] = [0..<i] @ i # [Suc i..<n]"
proof -
  have "[0..<i + (n - i)] = [0..<i] @ [i..<i + (n - i)]" by (rule upt_add_eq_append) simp
  then show ?thesis using assms by (simp add: upt_conv_Cons)
qed

lemma free_slots_after_set:
  assumes ok: "target_ok t" and fr: "free_slots t = i # rest"
    and t': "hw_breakpoint t' = (hw_breakpoint t)[i := addr OR 1]"
        "hw_breakpoint_max t' = hw_breakpoint_max t"
  shows "free_slots t' = rest"
proof -
  let ?P = "\<lambda>j. hw_breakpoint t ! j AND 1 = 0"
  from filter_upt_Cons[OF fr[unfolded free_slots_def]]
  have i: "i < hw_breakpoint_max t" and low: "\<forall>j<i. \<not> ?P j"
    and rest: "rest = filter ?P [Suc i..<hw_breakpoint_max t]" by auto
  have len: "i < length (hw_breakpoint t)" using ok i by (simp add: target_ok_def)
  have a: "filter (\<lambda>j. (hw_breakpoint t)[i := addr OR 1] ! j AND 1 = 0) [0..<i] = []"
    using low by (auto simp: filter_empty_conv)
  have b: "\<not> ((hw_breakpoint t)[i := addr OR 1] ! i AND 1 = 0)"
    using len or1_low by simp
  have c: "filter (\<lambda>j. (hw_breakpoint t)[i := addr OR 1] ! j AND 1 = 0) [Suc i..<hw_breakpoint_max t]
         = filter ?P [Suc i..<hw_breakpoint_max t]"
    by (rule filter_cong) auto
  show ?thesis
    unfolding free_slots_def t' by (subst upt_split_at[OF i]) (simp add: a b c rest)
qed

lemma apb_reliable_ok: "apb_reliable t \<Longrightarrow> apb_ok t k"
  by (simp add: apb_reliable_def apb_ok_def)

lemma set_hw_bps_all:
  "target_ok t \<Longrightarrow> apb_reliable t \<Longrightarrow> length bps \<le> length (free_slots t) \<Longrightarrow>
   fst (set_hw_bps bps t) = replicate (length bps) (Inr 0) \<and>
   length (free_slots (snd (set_hw_bps bps t))) = length (free_slots t) - length bps"
proof (induction bps arbitrary: t)
  case Nil
  then show ?case by simp
next
  case (Cons b bps)
  obtain addr len where b: "b = (addr, len)" by (cases b)
  from Cons.prems(3) obtain i rest where fr: "free_slots t = i # rest"
    by (cases "free_slots t") auto
  define t' where "t' = t\<lparr>hw_breakpoint := (hw_breakpoint t)[i := addr OR 1],
              bpc0 := (if i = 0 then bp_bas addr len OR DBGBCR_EN else bpc0 t),
              apb_count := apb_count t + 2,
              trace := trace t @
                [Apb_write (base t + 4 * ucast (DBGBVR i)) (addr AND NOT 3),
                 Apb_write (base t + 4 * ucast (DBGBCR i)) (bp_bas addr len OR DBGBCR_EN)]\<rparr>"
  have run: "cortexa_set_hw_bp addr len t = (Inr 0, t')"
    unfolding t'_def by (rule set_hw_bp_run[OF fr apb_reliable_ok[OF Cons.prems(2)]])
  have ok': "target_ok t'" using Cons.prems(1) by (simp add: target_ok_def t'_def)
  have rel': "apb_reliable t'" using Cons.prems(2) by (simp add: apb_reliable_def t'_def)
  have fr': "free_slots t' = rest"
    by (rule free_slots_after_set[OF Cons.prems(1) fr]) (simp_all add: t'_def)
  have len': "length bps \<le> length (free_slots t')" using Cons.prems(3) fr fr' by simp
  from Cons.IH[OF ok' rel' len'] show ?case
    by (simp add: b run fr fr' case_prod_beta)
qed

lemma clear_hw_bp_none:
  assumes "matching_slots t addr = []"
  shows "cortexa_clear_hw_bp addr len t = (Inr (- 1), t)"
  using assms by (simp add: cortexa_clear_hw_bp_def clear_hw_bp_scan_conv matching_slots_def)

lemma clear_hw_bp_run:
  assumes m: "matching_slots t addr = i # rest" and apb: "apb_ok t 1"
  shows "cortexa_clear_hw_bp addr len t =
     (Inr 0, t\<lparr>hw_breakpoint := (hw_breakpoint t)[i := 0],
              bpc0 := (if i = 0 then 0 else bpc0 t),
              apb_count := apb_count t + 1,
              trace := trace t @ [Apb_write (base t + 4 * ucast (DBGBCR i)) 0]\<rparr>)"
proof -
  have i: "i < hw_breakpoint_max t"
    using filter_upt_Cons[OF m[unfolded matching_slots_def]] by simp
  have scan: "clear_hw_bp_scan (hw_breakpoint t) (hw_breakpoint_max t) addr 0 = i"
    using m by (simp add: clear_hw_bp_scan_conv matching_slots_def)
  obtain v0 where v0: "apb_resp t (apb_count t) = Resp v0" using apb_okD[OF apb, of 0] by auto
  show ?thesis using i
    by (cases "i = 0")
       (simp_all add: cortexa_clear_hw_bp_def scan Let_def monad_simps apb_write_Resp v0)
qed

lemma clear_hw_bp_table:
  "hw_breakpoint (snd (cortexa_clear_hw_bp addr len t)) = hw_breakpoint t \<or>
   (\<exists>i<hw_breakpoint_max t. hw_breakpoint t ! i AND NOT 1 = addr \<and>
      hw_breakpoint (snd (cortexa_clear_hw_bp addr len t)) = (hw_breakpoint t)[i := 0])"
proof (cases "matching_slots t addr")
  case Nil
  then show ?thesis by (simp add: clear_hw_bp_none)
next
  case (Cons i rest)
  from filter_upt_Cons[OF Cons[unfolded matching_slots_def]]
  have i: "i < hw_breakpoint_max t" "hw_breakpoint t ! i AND NOT 1 = addr" by auto
  have scan: "clear_hw_bp_scan (hw_breakpoint t) (hw_breakpoint_max t) addr 0 = i"
    using Cons by (simp add: clear_hw_bp_scan_conv matching_slots_def)
  have "hw_breakpoint (snd (cortexa_clear_hw_bp addr len t)) = (hw_breakpoint t)[i := 0]"
    using i
    by (cases "apb_resp t (apb_count t)")
       (simp_all add: cortexa_clear_hw_bp_def scan Let_def monad_simps apb_write_def log_req_def)
  with i show ?thesis by blast
qed

text \<open>
  Claim C3. On a target whose arrays have their declared sizes, \<open>cortexa_set_hw_bp\<close>
  takes the lowest comparator below \<open>hw_breakpoint_max\<close> whose table entry has a zero
  low bit. If there is none it returns -1 and the whole state, with the table, \<open>bpc0\<close>
  and the log of transport requests, is unchanged. Otherwise, when the transport
  completes the two writes, it stores \<open>addr | 1\<close> in the entry, writes \<open>addr & ~3\<close> to
  DBGBVR[i] and \<open>bas | EN\<close> to DBGBCR[i], keeps that control word in \<open>bpc0\<close> when
  \<open>i = 0\<close>, and returns 0. Hence with a transport that completes every transaction,
  as many breakpoints as there are free comparators can be set one after the other,
  each call returning 0, and once all free comparators are taken the next call
  returns -1.
\<close>

theorem set_hw_bp_correct:
  assumes "target_ok t"
  shows
  "(free_slots t = [] \<longrightarrow> cortexa_set_hw_bp addr len t = (Inr (- 1), t)) \<and>
   (\<forall>i rest. free_slots t = i # rest \<and> apb_ok t 2 \<longrightarrow>
      i < hw_breakpoint_max t \<and> hw_breakpoint t ! i AND 1 = 0 \<and>
      (\<forall>j<i. hw_breakpoint t ! j AND 1 \<noteq> 0) \<and>
      cortexa_set_hw_bp addr len t =
        (Inr 0, t\<lparr>hw_breakpoint := (hw_breakpoint t)[i := addr OR 1],
                 bpc0 := (if i = 0 then bp_bas addr len OR DBGBCR_EN else bpc0 t),
                 apb_count := apb_count t + 2,
                 trace := trace t @
                   [Apb_write (base t + 4 * ucast (DBGBVR i)) (addr AND NOT 3),
                    Apb_write (base t + 4 * ucast (DBGBCR i))
                      (bp_bas addr len OR DBGBCR_EN)]\<rparr>)) \<and>
   (\<forall>bps. apb_reliable t \<and> length bps \<le> length (free_slots t) \<longrightarrow>
      fst (set_hw_bps bps t) = replicate (length bps) (Inr 0)) \<and>
   (\<forall>bps. apb_reliable t \<and> length bps = length (free_slots t) \<longrightarrow>
      fst (cortexa_set_hw_bp addr len (snd (set_hw_bps bps t))) = Inr (- 1))"
proof (intro conjI allI impI)
  assume "free_slots t = []"
  then show "cortexa_set_hw_bp addr len t = (Inr (- 1), t)" by (rule set_hw_bp_full)
next
  fix i rest assume a: "free_slots t = i # rest \<and> apb_ok t 2"
  then have "filter (\<lambda>j. hw_breakpoint t ! j AND 1 = 0) [0..<hw_breakpoint_max t] = i # rest"
    by (simp add: free_slots_def)
  from filter_upt_Cons[OF this]
  show "i < hw_breakpoint_max t" "hw_breakpoint t ! i AND 1 = 0"
    "\<And>j. j < i \<Longrightarrow> hw_breakpoint t ! j AND 1 \<noteq> 0"
    by blast+
  from a have fr: "free_slots t = i # rest" and apb: "apb_ok t 2" by simp_all
  show "cortexa_set_hw_bp addr len t =
        (Inr 0, t\<lparr>hw_breakpoint := (hw_breakpoint t)[i := addr OR 1],
                 bpc0 := (if i = 0 then bp_bas addr len OR DBGBCR_EN else bpc0 t),
                 apb_count := apb_count t + 2,
                 trace := trace t @
                   [Apb_write (base t + 4 * ucast (DBGBVR i)) (addr AND NOT 3),
                    Apb_write (base t + 4 * ucast (DBGBCR i))
                      (bp_bas addr len OR DBGBCR_EN)]\<rparr>)"
    by (rule set_hw_bp_run[OF fr apb])
next
  fix bps :: "(u32 \<times> u8) list" assume "apb_reliable t \<and> length bps \<le> length (free_slots t)"
  then show "fst (set_hw_bps bps t) = replicate (length bps) (Inr 0)"
    using set_hw_bps_all[OF assms] by simp
next
  fix bps :: "(u32 \<times> u8) list" assume a: "apb_reliable t \<and> length bps = length (free_slots t)"
  then have "length (free_slots (snd (set_hw_bps bps t))) = 0"
    using set_hw_bps_all[OF assms, of bps] by simp
  then have "free_slots (snd (set_hw_bps bps t)) = []" by simp
  then show "fst (cortexa_set_hw_bp addr len (snd (set_hw_bps bps t))) = Inr (- 1)"
    by (simp add: set_hw_bp_full)
qed

lemma probed_ok: "n \<le> 16 \<Longrightarrow> target_ok (probed_target n f)"
  by (simp add: target_ok_def probed_target_def)

lemma probed_reliable: "apb_reliable (probed_target n (\<lambda>_. Resp v))"
  by (simp add: apb_reliable_def probed_target_def)

theorem set_hw_bp_correct_witness:
  "target_ok (probed_target 2 (\<lambda>_. Resp 0)) \<and>
   free_slots (probed_target 2 (\<lambda>_. Resp 0)) = [0, 1] \<and>
   apb_ok (probed_target 2 (\<lambda>_. Resp 0)) 2 \<and>
   apb_reliable (probed_target 2 (\<lambda>_. Resp 0)) \<and>
   fst (cortexa_set_hw_bp 0x8000 4 (probed_target 2 (\<lambda>_. Resp 0))) = Inr 0 \<and>
   fst (set_hw_bps [(0x8000, 4), (0x8004, 2)] (probed_target 2 (\<lambda>_. Resp 0))) = [Inr 0, Inr 0] \<and>
   fst (cortexa_set_hw_bp 0x8008 4
         (snd (set_hw_bps [(0x8000, 4), (0x8004, 2)] (probed_target 2 (\<lambda>_. Resp 0))))) = Inr (- 1) \<and>
   target_ok ((probed_target 2 (\<lambda>_. Resp 0))\<lparr>hw_breakpoint := replicate 16 0x8001\<rparr>) \<and>
   free_slots ((probed_target 2 (\<lambda>_. Resp 0))\<lparr>hw_breakpoint := replicate 16 0x8001\<rparr>) = [] \<and>
   cortexa_set_hw_bp 0x8008 4 ((probed_target 2 (\<lambda>_. Resp 0))\<lparr>hw_breakpoint := replicate 16 0x8001\<rparr>) =
     (Inr (- 1), (probed_target 2 (\<lambda>_. Resp 0))\<lparr>hw_breakpoint := replicate 16 0x8001\<rparr>)"
proof -
  let ?t = "probed_target 2 (\<lambda>_. Resp 0)"
  let ?bps = "[(0x8000, 4), (0x8004, 2)] :: (u32 \<times> u8) list"
  let ?u = "?t\<lparr>hw_breakpoint := replicate 16 0x8001\<rparr>"
  have ok: "target_ok ?t" by (simp add: probed_ok)
  have rel: "apb_reliable ?t" by (rule probed_reliable)
  have apb: "apb_ok ?t 2" by (simp add: apb_ok_def probed_target_def)
  have fr: "free_slots ?t = [0, 1]"
    by (simp add: free_slots_def probed_target_def upt_conv_Cons)
  note A = set_hw_bp_correct[OF ok, of "0x8000" 4]
  note B = set_hw_bp_correct[OF ok, of "0x8008" 4]
  have 1: "fst (cortexa_set_hw_bp 0x8000 4 ?t) = Inr 0"
    using A[THEN conjunct2, THEN conjunct1, rule_format, of 0 "[1]"] fr apb by simp
  have 2: "fst (set_hw_bps ?bps ?t) = [Inr 0, Inr 0]"
    using A[THEN conjunct2, THEN conjunct2, THEN conjunct1, rule_format, of ?bps] rel fr
    by (simp add: numeral_2_eq_2)
  have 3: "fst (cortexa_set_hw_bp 0x8008 4 (snd (set_hw_bps ?bps ?t))) = Inr (- 1)"
    using B[THEN conjunct2, THEN conjunct2, THEN conjunct2, rule_format, of ?bps] rel fr by simp
  have oku: "target_ok ?u"
    by (simp add: target_ok_def probed_target_def)
  have fu: "free_slots ?u = []"
    by (simp add: free_slots_def probed_target_def upt_conv_Cons)
  have 4: "cortexa_set_hw_bp 0x8008 4 ?u = (Inr (- 1), ?u)"
    using set_hw_bp_correct[OF oku, of "0x8008" 4, THEN conjunct1] fu by blast
  show ?thesis
    by (intro conjI ok rel apb fr 1 2 3 oku fu 4)
qed




lemma probed_free2: "free_slots (probed_target 2 f) = [0, 1]"
  by (simp add: free_slots_def probed_target_def upt_conv_Cons)


lemma probed_apb_ok: "apb_ok (probed_target n (\<lambda>_. Resp v)) k"
  by (simp add: apb_ok_def probed_target_def)


lemma clear_hw_bp_len: "cortexa_clear_hw_bp addr len = cortexa_clear_hw_bp addr len'"
  by (simp add: cortexa_clear_hw_bp_def)

text \<open>
  Claim C9. For an odd address: with a free comparator \<open>i\<close> and a transport that
  completes the two writes, \<open>cortexa_set_hw_bp\<close> returns 0 and the entry of \<open>i\<close> holds
  \<open>addr\<close> itself; \<open>cortexa_clear_hw_bp\<close> with that odd address returns -1 in every
  state and for every \<open>len\<close>, changing nothing; a call of \<open>cortexa_clear_hw_bp\<close> that
  changes an entry holding \<open>addr\<close> was made with \<open>addr & ~1\<close>; and the call with
  \<open>addr & ~1\<close> returns 0 and zeroes the first entry that matches it.
\<close>

theorem odd_address_breakpoint:
  assumes "target_ok t" and "addr AND 1 \<noteq> 0"
  shows
  "(\<forall>i rest. free_slots t = i # rest \<and> apb_ok t 2 \<longrightarrow>
      fst (cortexa_set_hw_bp addr len t) = Inr 0 \<and>
      hw_breakpoint (snd (cortexa_set_hw_bp addr len t)) ! i = addr) \<and>
   (\<forall>u len'. cortexa_clear_hw_bp addr len' u = (Inr (- 1), u)) \<and>
   (\<forall>u a len' j. target_ok u \<and> j < hw_breakpoint_max u \<and> hw_breakpoint u ! j = addr \<and>
      hw_breakpoint (snd (cortexa_clear_hw_bp a len' u)) ! j \<noteq> addr \<longrightarrow> a = addr AND NOT 1) \<and>
   (\<forall>u len' j rest. target_ok u \<and> matching_slots u (addr AND NOT 1) = j # rest \<and> apb_ok u 1 \<longrightarrow>
      fst (cortexa_clear_hw_bp (addr AND NOT 1) len' u) = Inr 0 \<and>
      hw_breakpoint (snd (cortexa_clear_hw_bp (addr AND NOT 1) len' u)) ! j = 0)"
proof (intro conjI allI impI)
  fix i rest assume a: "free_slots t = i # rest \<and> apb_ok t 2"
  then have fr: "free_slots t = i # rest" and apb: "apb_ok t 2" by simp_all
  from filter_upt_Cons[OF fr[unfolded free_slots_def]] have "i < hw_breakpoint_max t" by blast
  then have len: "i < length (hw_breakpoint t)" using assms(1) by (simp add: target_ok_def)
  show "fst (cortexa_set_hw_bp addr len t) = Inr 0"
    by (simp add: set_hw_bp_run[OF fr apb])
  show "hw_breakpoint (snd (cortexa_set_hw_bp addr len t)) ! i = addr"
    using len by (simp add: set_hw_bp_run[OF fr apb] odd_or1[OF assms(2)])
next
  fix u :: target and len' :: u8
  have "matching_slots u addr = []"
    using odd_no_match[OF assms(2)] by (simp add: matching_slots_def)
  then show "cortexa_clear_hw_bp addr len' u = (Inr (- 1), u)" by (rule clear_hw_bp_none)
next
  fix u :: target and a :: u32 and len' :: u8 and j :: nat
  assume h: "target_ok u \<and> j < hw_breakpoint_max u \<and> hw_breakpoint u ! j = addr \<and>
      hw_breakpoint (snd (cortexa_clear_hw_bp a len' u)) ! j \<noteq> addr"
  from clear_hw_bp_table[of a len' u] h
  obtain i where i: "i < hw_breakpoint_max u" "hw_breakpoint u ! i AND NOT 1 = a"
    "hw_breakpoint (snd (cortexa_clear_hw_bp a len' u)) = (hw_breakpoint u)[i := 0]"
    by auto
  have "i = j"
  proof (rule ccontr)
    assume "i \<noteq> j"
    then have "(hw_breakpoint u)[i := 0] ! j = hw_breakpoint u ! j" by simp
    with h i(3) show False by simp
  qed
  with i(2) h show "a = addr AND NOT 1" by simp
next
  fix u :: target and len' :: u8 and j :: nat and rest :: "nat list"
  assume h: "target_ok u \<and> matching_slots u (addr AND NOT 1) = j # rest \<and> apb_ok u 1"
  then have m: "matching_slots u (addr AND NOT 1) = j # rest" and apb: "apb_ok u 1" by simp_all
  from filter_upt_Cons[OF m[unfolded matching_slots_def]] have "j < hw_breakpoint_max u" by blast
  then have len: "j < length (hw_breakpoint u)" using h by (simp add: target_ok_def)
  show "fst (cortexa_clear_hw_bp (addr AND NOT 1) len' u) = Inr 0"
    by (subst clear_hw_bp_run[OF m apb]) simp
  show "hw_breakpoint (snd (cortexa_clear_hw_bp (addr AND NOT 1) len' u)) ! j = 0"
    using len by (subst clear_hw_bp_run[OF m apb]) simp
qed

theorem odd_address_breakpoint_witness:
  "target_ok (probed_target 2 (\<lambda>_. Resp 0)) \<and> (0x8001 :: u32) AND 1 \<noteq> 0 \<and>
   free_slots (probed_target 2 (\<lambda>_. Resp 0)) = [0, 1] \<and>
   apb_ok (probed_target 2 (\<lambda>_. Resp 0)) 2 \<and>
   fst (cortexa_set_hw_bp 0x8001 2 (probed_target 2 (\<lambda>_. Resp 0))) = Inr 0 \<and>
   hw_breakpoint (snd (cortexa_set_hw_bp 0x8001 2 (probed_target 2 (\<lambda>_. Resp 0)))) ! 0 = 0x8001 \<and>
   fst (cortexa_clear_hw_bp 0x8001 2
          (snd (cortexa_set_hw_bp 0x8001 2 (probed_target 2 (\<lambda>_. Resp 0))))) = Inr (- 1) \<and>
   matching_slots (snd (cortexa_set_hw_bp 0x8001 2 (probed_target 2 (\<lambda>_. Resp 0))))
     (0x8001 AND NOT 1) = [0] \<and>
   fst (cortexa_clear_hw_bp (0x8001 AND NOT 1) 2
          (snd (cortexa_set_hw_bp 0x8001 2 (probed_target 2 (\<lambda>_. Resp 0))))) = Inr 0"
proof -
  let ?t = "probed_target 2 (\<lambda>_. Resp 0)"
  define u where "u = snd (cortexa_set_hw_bp 0x8001 2 ?t)"
  have ok: "target_ok ?t" by (simp add: probed_ok)
  have odd: "(0x8001 :: u32) AND 1 \<noteq> 0" by simp
  have fr: "free_slots ?t = [0, 1]" by (rule probed_free2)
  have apb: "apb_ok ?t 2" by (rule probed_apb_ok)
  note T = odd_address_breakpoint[OF ok odd, of 2]
  have 1: "fst (cortexa_set_hw_bp 0x8001 2 ?t) = Inr 0 \<and>
           hw_breakpoint (snd (cortexa_set_hw_bp 0x8001 2 ?t)) ! 0 = 0x8001"
    using T[THEN conjunct1, rule_format, of 0 "[1]"] fr apb by blast
  have 2: "cortexa_clear_hw_bp 0x8001 2 u = (Inr (- 1), u)"
    using T[THEN conjunct2, THEN conjunct1] by blast
  have u: "hw_breakpoint u = (replicate 16 0)[0 := 0x8001]" "hw_breakpoint_max u = 2"
    "apb_resp u = (\<lambda>_. Resp 0)"
    unfolding u_def by (simp_all add: set_hw_bp_run[OF fr apb]) (simp_all add: probed_target_def)
  have oku: "target_ok u"
    unfolding u_def by (simp add: set_hw_bp_run[OF fr apb]) (simp add: target_ok_def probed_target_def)
  have apbu: "apb_ok u 1" by (simp add: apb_ok_def u)
  have m: "matching_slots u (0x8001 AND NOT 1) = [0]"
    by (simp add: matching_slots_def u upt_conv_Cons)
  have 3: "fst (cortexa_clear_hw_bp (0x8001 AND NOT 1) 2 u) = Inr 0"
    using T[THEN conjunct2, THEN conjunct2, THEN conjunct2, rule_format, of u 0 "[]" 2] oku m apbu
    by blast
  show ?thesis
    using ok odd fr apb 1 2 m 3 unfolding u_def by (simp del: and_numerals)
qed

text \<open>
  Claim C4, at address 0. The claim has every successful clear free exactly one
  comparator and the second clear of a set address fail. On a freshly probed target
  with two comparators and a transport that completes every transaction:
  \<open>cortexa_set_hw_bp(0, 4)\<close> returns 0 and takes comparator 0;
  \<open>cortexa_clear_hw_bp(0, 4)\<close> returns 0 and frees it; the second
  \<open>cortexa_clear_hw_bp(0, 4)\<close> returns 0 again, and the free comparators are the same
  before and after it. What the scan, the update and the failure case of
  \<open>cortexa_clear_hw_bp\<close> do in general is \<open>clear_hw_bp_run\<close>, \<open>clear_hw_bp_none\<close> and
  \<open>clear_hw_bp_len\<close> above.
\<close>

theorem clear_hw_bp_address_zero_twice:
  "fst (cortexa_set_hw_bp 0 4 (probed_target 2 (\<lambda>_. Resp 0))) = Inr 0 \<and>
   free_slots (snd (cortexa_set_hw_bp 0 4 (probed_target 2 (\<lambda>_. Resp 0)))) = [1] \<and>
   fst (cortexa_clear_hw_bp 0 4
         (snd (cortexa_set_hw_bp 0 4 (probed_target 2 (\<lambda>_. Resp 0))))) = Inr 0 \<and>
   free_slots (snd (cortexa_clear_hw_bp 0 4
         (snd (cortexa_set_hw_bp 0 4 (probed_target 2 (\<lambda>_. Resp 0)))))) = [0, 1] \<and>
   fst (cortexa_clear_hw_bp 0 4
         (snd (cortexa_clear_hw_bp 0 4
           (snd (cortexa_set_hw_bp 0 4 (probed_target 2 (\<lambda>_. Resp 0))))))) = Inr 0 \<and>
   free_slots (snd (cortexa_clear_hw_bp 0 4
         (snd (cortexa_clear_hw_bp 0 4
           (snd (cortexa_set_hw_bp 0 4 (probed_target 2 (\<lambda>_. Resp 0)))))))) = [0, 1]"
proof -
  let ?t = "probed_target 2 (\<lambda>_. Resp 0)"
  define t1 where "t1 = snd (cortexa_set_hw_bp 0 4 ?t)"
  define t2 where "t2 = snd (cortexa_clear_hw_bp 0 4 t1)"
  define t3 where "t3 = snd (cortexa_clear_hw_bp 0 4 t2)"
  have fr: "free_slots ?t = [0, 1]" by (rule probed_free2)
  have apb: "apb_ok ?t 2" by (rule probed_apb_ok)
  have s1: "fst (cortexa_set_hw_bp 0 4 ?t) = Inr 0" by (simp add: set_hw_bp_run[OF fr apb])
  have t1: "hw_breakpoint t1 = (replicate 16 0)[0 := 1]" "hw_breakpoint_max t1 = 2"
    "apb_resp t1 = (\<lambda>_. Resp 0)"
    unfolding t1_def by (simp_all add: set_hw_bp_run[OF fr apb]) (simp_all add: probed_target_def)
  have f1: "free_slots t1 = [1]" by (simp add: free_slots_def t1 upt_conv_Cons)
  have m1: "matching_slots t1 0 = [0, 1]" by (simp add: matching_slots_def t1 upt_conv_Cons)
  have a1: "apb_ok t1 1" by (simp add: apb_ok_def t1)
  have c1: "fst (cortexa_clear_hw_bp 0 4 t1) = Inr 0" by (simp add: clear_hw_bp_run[OF m1 a1])
  have t2: "hw_breakpoint t2 = (replicate 16 0)[0 := 1, 0 := 0]" "hw_breakpoint_max t2 = 2"
    "apb_resp t2 = (\<lambda>_. Resp 0)"
    unfolding t2_def by (simp_all add: clear_hw_bp_run[OF m1 a1] t1)
  have f2: "free_slots t2 = [0, 1]" by (simp add: free_slots_def t2 upt_conv_Cons)
  have m2: "matching_slots t2 0 = [0, 1]" by (simp add: matching_slots_def t2 upt_conv_Cons)
  have a2: "apb_ok t2 1" by (simp add: apb_ok_def t2)
  have c2: "fst (cortexa_clear_hw_bp 0 4 t2) = Inr 0" by (simp add: clear_hw_bp_run[OF m2 a2])
  have t3: "hw_breakpoint t3 = (replicate 16 0)[0 := 1, 0 := 0, 0 := 0]" "hw_breakpoint_max t3 = 2"
    unfolding t3_def by (simp_all add: clear_hw_bp_run[OF m2 a2] t2)
  have f3: "free_slots t3 = [0, 1]" by (simp add: free_slots_def t3 upt_conv_Cons)
  show ?thesis
    using s1 f1 c1 f2 c2 f3 unfolding t1_def t2_def t3_def by blast
qed

section \<open>Register cache as bytes\<close>

lemma length_le_bytes [simp]: "length (le_bytes n w) = n"
  by (simp add: le_bytes_def)

lemma byte_step:
  fixes x :: "'a::len word"
  shows "ucast (ucast x :: u8) OR push_bit 8 (take_bit (8 * n) (drop_bit 8 x)) =
         take_bit (8 + 8 * n) x"
proof (rule bit_word_eqI)
  fix k assume "k < LENGTH('a)"
  show "bit (ucast (ucast x :: u8) OR push_bit 8 (take_bit (8 * n) (drop_bit 8 x))) k
        = bit (take_bit (8 + 8 * n) x) k"
  proof (cases "k < 8")
    case True
    then show ?thesis using \<open>k < LENGTH('a)\<close> by (simp add: bit_simps)
  next
    case False
    then have k: "8 + (k - 8) = k" by simp
    have "k - 8 < 8 * n \<longleftrightarrow> k < 8 + 8 * n" using False by arith
    then show ?thesis using False \<open>k < LENGTH('a)\<close> by (simp add: bit_simps k)
  qed
qed

lemma le_word_map:
  fixes w :: "'a::len word"
  shows "(le_word (map (\<lambda>k. ucast (drop_bit (8 * k) w)) [i..<i + n]) :: 'a word) =
         take_bit (8 * n) (drop_bit (8 * i) w)"
proof (induction n arbitrary: i)
  case 0
  then show ?case by simp
next
  case (Suc n)
  have upt: "[i..<i + Suc n] = i # [Suc i..<Suc i + n]" by (simp add: upt_conv_Cons)
  have d: "drop_bit (8 * Suc i) w = drop_bit 8 (drop_bit (8 * i) w)"
    by (simp add: add.commute)
  show ?case
    unfolding upt list.map le_word.simps Suc.IH d
    using byte_step[of "drop_bit (8 * i) w" n] by simp
qed

lemma le_word_le_bytes:
  fixes w :: "'a::len word"
  assumes "LENGTH('a) \<le> 8 * n"
  shows "le_word (le_bytes n w) = w"
proof -
  have "(le_word (le_bytes n w) :: 'a word) = take_bit (8 * n) (drop_bit (8 * 0) w)"
    unfolding le_bytes_def using le_word_map[of w 0 n] by simp
  also have "\<dots> = w" using assms by (simp add: take_bit_word_eq_self)
  finally show ?thesis .
qed


lemma words_of_bytes_concat:
  fixes ws :: "'a::len word list"
  assumes "LENGTH('a) \<le> 8 * sz"
  shows "words_of_bytes sz (length ws) (concat (map (le_bytes sz) ws) @ rest) = ws"
proof (induction ws)
  case Nil
  then show ?case by simp
next
  case (Cons w ws)
  then show ?case by (simp add: le_word_le_bytes[OF assms])
qed

lemma length_concat_le_bytes:
  "length (concat (map (le_bytes sz) ws)) = sz * length ws"
  by (induction ws) simp_all

lemma length_reg_cache_bytes:
  "length (r c) = 16 \<Longrightarrow> length (d c) = 16 \<Longrightarrow> length (reg_cache_bytes c) = 200"
  by (simp add: reg_cache_bytes_def length_concat_le_bytes)

lemma reg_cache_of_bytes_bytes:
  assumes r: "length (r c) = 16" and d: "length (d c) = 16"
  shows "reg_cache_of_bytes (reg_cache_bytes c) = c"
proof -
  let ?R = "concat (map (le_bytes 4) (r c))"
  let ?D = "concat (map (le_bytes 8) (d c))"
  have lr: "length ?R = 64" using r by (simp add: length_concat_le_bytes)
  have b: "reg_cache_bytes c = ?R @ le_bytes 4 (cpsr c) @ le_bytes 4 (fpscr c) @ ?D"
    by (simp add: reg_cache_bytes_def)
  have 1: "words_of_bytes 4 16 (reg_cache_bytes c) = r c"
    unfolding b using words_of_bytes_concat[of 4 "r c"] r by simp
  have 2: "(le_word (take 4 (drop 64 (reg_cache_bytes c))) :: u32) = cpsr c"
    unfolding b using lr by (simp add: le_word_le_bytes)
  have 3: "(le_word (take 4 (drop 68 (reg_cache_bytes c))) :: u32) = fpscr c"
    unfolding b using lr by (simp add: le_word_le_bytes)
  have 4: "words_of_bytes 8 16 (drop 72 (reg_cache_bytes c)) = d c"
    unfolding b using lr words_of_bytes_concat[of 8 "d c" "[]"] d by simp
  show ?thesis
    unfolding reg_cache_of_bytes_def 1 2 3 4 by simp
qed

lemma le_bytes_Suc:
  "le_bytes (Suc n) (w :: 'a::len word) = ucast w # le_bytes n (drop_bit 8 w)"
proof -
  have "[0..<Suc n] = 0 # map Suc [0..<n]"
    by (simp add: upt_conv_Cons map_Suc_upt del: upt_Suc)
  then show ?thesis
    by (simp add: le_bytes_def comp_def add.commute del: upt_Suc)
qed

lemma le_word_bound:
  "take_bit (8 * length bs) (le_word bs :: 'a::len word) = le_word bs"
proof (induction bs)
  case Nil
  then show ?case by simp
next
  case (Cons b bs)
  have "take_bit (8 + 8 * length bs) (ucast b OR push_bit 8 (le_word bs) :: 'a word) =
        ucast b OR push_bit 8 (take_bit (8 * length bs) (le_word bs))"
  proof (rule bit_word_eqI)
    fix k assume "k < LENGTH('a)"
    show "bit (take_bit (8 + 8 * length bs) (ucast b OR push_bit 8 (le_word bs) :: 'a word)) k =
          bit (ucast b OR push_bit 8 (take_bit (8 * length bs) (le_word bs)) :: 'a word) k"
      by (auto simp: bit_simps dest: bit_imp_le_length)
  qed
  then show ?case by (simp add: Cons.IH)
qed

lemma le_bytes_le_word:
  "length bs = n \<Longrightarrow> 8 * n \<le> LENGTH('a) \<Longrightarrow> le_bytes n (le_word bs :: 'a::len word) = bs"
proof (induction bs arbitrary: n)
  case Nil
  then show ?case by (simp add: le_bytes_def)
next
  case (Cons b bs)
  then obtain m where n: "n = Suc m" and m: "length bs = m" by (cases n) auto
  have fit: "8 + 8 * m \<le> LENGTH('a)" using Cons.prems(2) n by simp
  have lo: "(ucast (ucast b OR push_bit 8 (le_word bs) :: 'a word) :: u8) = b"
  proof (rule bit_word_eqI)
    fix k assume "k < LENGTH(8)"
    then show "bit (ucast (ucast b OR push_bit 8 (le_word bs) :: 'a word) :: u8) k = bit b k"
      using fit by (auto simp: bit_simps)
  qed
  have hi: "drop_bit 8 (ucast b OR push_bit 8 (le_word bs) :: 'a word) = le_word bs"
  proof (rule bit_word_eqI)
    fix k assume k: "k < LENGTH('a)"
    have bnd: "bit (le_word bs :: 'a word) k \<Longrightarrow> k < 8 * m"
      using le_word_bound[of bs, where 'a='a] m
      by (metis bit_take_bit_iff)
    show "bit (drop_bit 8 (ucast b OR push_bit 8 (le_word bs) :: 'a word)) k =
          bit (le_word bs :: 'a word) k"
      using k fit bnd by (auto simp: bit_simps dest: bit_imp_le_length)
  qed
  have "8 * m \<le> LENGTH('a)" using fit by simp
  from Cons.IH[OF m this] have ih: "le_bytes m (le_word bs :: 'a word) = bs" .
  have "le_bytes (Suc m) (le_word (b # bs) :: 'a word) = b # le_bytes m (le_word bs :: 'a word)"
    unfolding le_bytes_Suc le_word.simps lo hi by simp
  then show ?case unfolding n ih .
qed

lemma length_words_of_bytes [simp]:
  "length (words_of_bytes sz n bs) = n"
  by (induction n arbitrary: bs) simp_all

lemma concat_words_of_bytes:
  "sz * n \<le> length bs \<Longrightarrow> 8 * sz \<le> LENGTH('a) \<Longrightarrow>
   concat (map (le_bytes sz) (words_of_bytes sz n bs :: 'a::len word list)) = take (sz * n) bs"
proof (induction n arbitrary: bs)
  case 0
  then show ?case by simp
next
  case (Suc n)
  have l: "length (take sz bs) = sz" using Suc.prems(1) by simp
  have r: "sz * n \<le> length (drop sz bs)" using Suc.prems(1) by simp
  have "take sz bs @ take (sz * n) (drop sz bs) = take (sz * Suc n) bs"
    by (simp add: take_add[symmetric] add.commute)
  then show ?case
    using Suc.IH[OF r Suc.prems(2)] le_bytes_le_word[OF l Suc.prems(2)] by simp
qed

lemma reg_cache_bytes_of_bytes:
  assumes "length bs = 200"
  shows "reg_cache_bytes (reg_cache_of_bytes bs) = bs"
proof -
  have 1: "concat (map (le_bytes 4) (words_of_bytes 4 16 bs :: u32 list)) = take 64 bs"
    using concat_words_of_bytes[of 4 16 bs, where 'a=32] assms by simp
  have 2: "le_bytes 4 (le_word (take 4 (drop 64 bs)) :: u32) = take 4 (drop 64 bs)"
    using assms by (simp add: le_bytes_le_word)
  have 3: "le_bytes 4 (le_word (take 4 (drop 68 bs)) :: u32) = take 4 (drop 68 bs)"
    using assms by (simp add: le_bytes_le_word)
  have 4: "concat (map (le_bytes 8) (words_of_bytes 8 16 (drop 72 bs) :: u64 list)) =
           take 128 (drop 72 bs)"
    using concat_words_of_bytes[of 8 16 "drop 72 bs", where 'a=64] assms by simp
  have a: "take 68 bs = take 64 bs @ take 4 (drop 64 bs)"
    using take_add[of 64 4 bs] by simp
  have b: "take 72 bs = take 68 bs @ take 4 (drop 68 bs)"
    using take_add[of 68 4 bs] by simp
  have c: "take 200 bs = take 72 bs @ take 128 (drop 72 bs)"
    using take_add[of 72 128 bs] by simp
  have "take 64 bs @ take 4 (drop 64 bs) @ take 4 (drop 68 bs) @ take 128 (drop 72 bs) =
        take 200 bs"
    by (simp add: a b c)
  then show ?thesis
    using assms by (simp add: reg_cache_bytes_def reg_cache_of_bytes_def 1 2 3 4)
qed

text \<open>
  Claim C8. \<open>cortexa_regs_read\<close> and \<open>cortexa_regs_write\<close> copy \<open>regs_size\<close> bytes
  between the caller's buffer and the register cache (\<open>regs_size\<close> is at most the 200
  bytes of the cache and the buffers hold at least \<open>regs_size\<close> bytes). The read
  delivers the first \<open>regs_size\<close> bytes of the cache and leaves the rest of the buffer
  alone. The write puts the first \<open>regs_size\<close> bytes of any buffer \<open>w\<close> into the cache
  and leaves the rest of the cache and every other field of the target alone; a read
  that follows delivers those bytes. Writing back what was just read leaves the target
  as it was, and a following read delivers the same \<open>regs_size\<close> bytes; buffers of
  exactly \<open>regs_size\<close> bytes come out equal.
\<close>

theorem regs_read_write_read:
  assumes "target_ok t" and "regs_size t \<le> 200"
    and "regs_size t \<le> length buf" and "regs_size t \<le> length buf2"
    and "regs_size t \<le> length w"
  shows "cortexa_regs_write (cortexa_regs_read buf t) t = t \<and>
     take (regs_size t) (cortexa_regs_read buf t) =
       take (regs_size t) (reg_cache_bytes (reg_cache t)) \<and>
     drop (regs_size t) (cortexa_regs_read buf t) = drop (regs_size t) buf \<and>
     take (regs_size t)
       (cortexa_regs_read buf2 (cortexa_regs_write (cortexa_regs_read buf t) t)) =
       take (regs_size t) (cortexa_regs_read buf t) \<and>
     (length buf = regs_size t \<and> length buf2 = regs_size t \<longrightarrow>
        cortexa_regs_read buf2 (cortexa_regs_write (cortexa_regs_read buf t) t) =
        cortexa_regs_read buf t) \<and>
     reg_cache_bytes (reg_cache (cortexa_regs_write w t)) =
       take (regs_size t) w @ drop (regs_size t) (reg_cache_bytes (reg_cache t)) \<and>
     cortexa_regs_write w t = t\<lparr>reg_cache := reg_cache (cortexa_regs_write w t)\<rparr> \<and>
     target_ok (cortexa_regs_write w t) \<and>
     take (regs_size t) (cortexa_regs_read buf2 (cortexa_regs_write w t)) =
       take (regs_size t) w \<and>
     drop (regs_size t) (cortexa_regs_read buf2 (cortexa_regs_write w t)) =
       drop (regs_size t) buf2"
proof -
  let ?n = "regs_size t"
  let ?B = "reg_cache_bytes (reg_cache t)"
  have len: "length ?B = 200"
    using assms(1) by (simp add: target_ok_def length_reg_cache_bytes)
  have tk: "take ?n (cortexa_regs_read buf t) = take ?n ?B"
    using len assms(2) by (simp add: cortexa_regs_read_def)
  have dr: "drop ?n (cortexa_regs_read buf t) = drop ?n buf"
    using len assms(2) by (simp add: cortexa_regs_read_def)
  have "cortexa_regs_write (cortexa_regs_read buf t) t =
          t\<lparr>reg_cache := reg_cache_of_bytes (take ?n ?B @ drop ?n ?B)\<rparr>"
    unfolding cortexa_regs_write_def tk ..
  also have "\<dots> = t\<lparr>reg_cache := reg_cache t\<rparr>"
    using assms(1) by (simp add: reg_cache_of_bytes_bytes target_ok_def)
  also have "\<dots> = t" by simp
  finally have wr: "cortexa_regs_write (cortexa_regs_read buf t) t = t" .
  have tk2: "take ?n (cortexa_regs_read buf2 t) = take ?n ?B"
    using len assms(2) by (simp add: cortexa_regs_read_def)
  have full: "length buf = ?n \<and> length buf2 = ?n \<longrightarrow>
      cortexa_regs_read buf2 t = cortexa_regs_read buf t"
    by (simp add: cortexa_regs_read_def)
  let ?W = "take ?n w @ drop ?n ?B"
  have lw: "length ?W = 200" using len assms(2,5) by simp
  have cw: "reg_cache (cortexa_regs_write w t) = reg_cache_of_bytes ?W"
    by (simp add: cortexa_regs_write_def)
  have bw: "reg_cache_bytes (reg_cache (cortexa_regs_write w t)) = ?W"
    unfolding cw by (rule reg_cache_bytes_of_bytes[OF lw])
  have only: "cortexa_regs_write w t = t\<lparr>reg_cache := reg_cache (cortexa_regs_write w t)\<rparr>"
    by (simp add: cortexa_regs_write_def)
  have sz: "regs_size (cortexa_regs_write w t) = ?n"
    by (simp add: cortexa_regs_write_def)
  have okw: "target_ok (cortexa_regs_write w t)"
    using assms(1)
    by (simp add: target_ok_def cortexa_regs_write_def reg_cache_of_bytes_def)
  have rd: "cortexa_regs_read buf2 (cortexa_regs_write w t) = take ?n ?W @ drop ?n buf2"
    unfolding cortexa_regs_read_def sz bw ..
  have tw: "take ?n ?W = take ?n w" using assms(5) by simp
  have tk3: "take ?n (cortexa_regs_read buf2 (cortexa_regs_write w t)) = take ?n w"
    unfolding rd tw using assms(5) by simp
  have dr3: "drop ?n (cortexa_regs_read buf2 (cortexa_regs_write w t)) = drop ?n buf2"
    unfolding rd tw using assms(5) by simp
  have first: "cortexa_regs_write (cortexa_regs_read buf t) t = t \<and>
     take (regs_size t) (cortexa_regs_read buf t) =
       take (regs_size t) (reg_cache_bytes (reg_cache t)) \<and>
     drop (regs_size t) (cortexa_regs_read buf t) = drop (regs_size t) buf \<and>
     take (regs_size t)
       (cortexa_regs_read buf2 (cortexa_regs_write (cortexa_regs_read buf t) t)) =
       take (regs_size t) (cortexa_regs_read buf t) \<and>
     (length buf = regs_size t \<and> length buf2 = regs_size t \<longrightarrow>
        cortexa_regs_read buf2 (cortexa_regs_write (cortexa_regs_read buf t) t) =
        cortexa_regs_read buf t)"
    unfolding wr using tk dr tk2 full by simp
  show ?thesis
    by (rule conjI[OF first[THEN conjunct1]],
        rule conjI[OF first[THEN conjunct2, THEN conjunct1]],
        rule conjI[OF first[THEN conjunct2, THEN conjunct2, THEN conjunct1]],
        rule conjI[OF first[THEN conjunct2, THEN conjunct2, THEN conjunct2, THEN conjunct1]],
        rule conjI[OF first[THEN conjunct2, THEN conjunct2, THEN conjunct2, THEN conjunct2]],
        intro conjI bw only okw tk3 dr3)
qed


text \<open>
  The theorem above on a target whose register cache is not zero, with a buffer of the
  bytes 0 to 199 for the write: afterwards the cache holds these bytes, a read delivers
  them, and r0 is the word 0x03020100.
\<close>

theorem regs_read_write_read_witness:
  "target_ok ((probed_target 2 (\<lambda>_. Resp 0))\<lparr>reg_cache :=
      \<lparr>r = map of_nat [1..<17], cpsr = 0x1d3, fpscr = 7, d = map of_nat [100..<116]\<rparr>\<rparr>) \<and>
   regs_size ((probed_target 2 (\<lambda>_. Resp 0))\<lparr>reg_cache :=
      \<lparr>r = map of_nat [1..<17], cpsr = 0x1d3, fpscr = 7, d = map of_nat [100..<116]\<rparr>\<rparr>) = 200 \<and>
   length (replicate 200 (0xAA :: u8)) = 200 \<and> length (replicate 200 (0x55 :: u8)) = 200 \<and>
   length (map of_nat [0..<200] :: u8 list) = 200 \<and>
   cortexa_regs_write
     (cortexa_regs_read (replicate 200 0xAA)
        ((probed_target 2 (\<lambda>_. Resp 0))\<lparr>reg_cache :=
           \<lparr>r = map of_nat [1..<17], cpsr = 0x1d3, fpscr = 7, d = map of_nat [100..<116]\<rparr>\<rparr>))
     ((probed_target 2 (\<lambda>_. Resp 0))\<lparr>reg_cache :=
        \<lparr>r = map of_nat [1..<17], cpsr = 0x1d3, fpscr = 7, d = map of_nat [100..<116]\<rparr>\<rparr>) =
     (probed_target 2 (\<lambda>_. Resp 0))\<lparr>reg_cache :=
        \<lparr>r = map of_nat [1..<17], cpsr = 0x1d3, fpscr = 7, d = map of_nat [100..<116]\<rparr>\<rparr> \<and>
   cortexa_regs_read (replicate 200 0x55)
     (cortexa_regs_write
        (cortexa_regs_read (replicate 200 0xAA)
           ((probed_target 2 (\<lambda>_. Resp 0))\<lparr>reg_cache :=
              \<lparr>r = map of_nat [1..<17], cpsr = 0x1d3, fpscr = 7, d = map of_nat [100..<116]\<rparr>\<rparr>))
        ((probed_target 2 (\<lambda>_. Resp 0))\<lparr>reg_cache :=
           \<lparr>r = map of_nat [1..<17], cpsr = 0x1d3, fpscr = 7, d = map of_nat [100..<116]\<rparr>\<rparr>)) =
   cortexa_regs_read (replicate 200 0xAA)
     ((probed_target 2 (\<lambda>_. Resp 0))\<lparr>reg_cache :=
        \<lparr>r = map of_nat [1..<17], cpsr = 0x1d3, fpscr = 7, d = map of_nat [100..<116]\<rparr>\<rparr>) \<and>
   reg_cache_bytes (reg_cache (cortexa_regs_write (map of_nat [0..<200])
     ((probed_target 2 (\<lambda>_. Resp 0))\<lparr>reg_cache :=
        \<lparr>r = map of_nat [1..<17], cpsr = 0x1d3, fpscr = 7, d = map of_nat [100..<116]\<rparr>\<rparr>))) =
     map of_nat [0..<200] \<and>
   cortexa_regs_read (replicate 200 0x55) (cortexa_regs_write (map of_nat [0..<200])
     ((probed_target 2 (\<lambda>_. Resp 0))\<lparr>reg_cache :=
        \<lparr>r = map of_nat [1..<17], cpsr = 0x1d3, fpscr = 7, d = map of_nat [100..<116]\<rparr>\<rparr>)) =
     map of_nat [0..<200] \<and>
   r (reg_cache (cortexa_regs_write (map of_nat [0..<200])
     ((probed_target 2 (\<lambda>_. Resp 0))\<lparr>reg_cache :=
        \<lparr>r = map of_nat [1..<17], cpsr = 0x1d3, fpscr = 7, d = map of_nat [100..<116]\<rparr>\<rparr>))) ! 0 =
     0x03020100"
proof -
  let ?t = "(probed_target 2 (\<lambda>_. Resp 0))\<lparr>reg_cache :=
      \<lparr>r = map of_nat [1..<17], cpsr = 0x1d3, fpscr = 7, d = map of_nat [100..<116]\<rparr>\<rparr>"
  let ?W = "map of_nat [0..<200] :: u8 list"
  have ok: "target_ok ?t" by (simp add: target_ok_def probed_target_def)
  have sz: "regs_size ?t = 200" by (simp add: probed_target_def)
  have lW: "length ?W = 200" by simp
  have h: "regs_size ?t \<le> 200" "regs_size ?t \<le> length (replicate 200 (0xAA :: u8))"
    "regs_size ?t \<le> length (replicate 200 (0x55 :: u8))" "regs_size ?t \<le> length ?W"
    by (simp_all add: probed_target_def)
  note T = regs_read_write_read[OF ok h]
  have lB: "length (reg_cache_bytes (reg_cache ?t)) = 200"
    using ok by (simp add: target_ok_def length_reg_cache_bytes)
  have a: "cortexa_regs_write (cortexa_regs_read (replicate 200 0xAA) ?t) ?t = ?t"
    using T[THEN conjunct1] .
  have b: "cortexa_regs_read (replicate 200 0x55)
             (cortexa_regs_write (cortexa_regs_read (replicate 200 0xAA) ?t) ?t) =
           cortexa_regs_read (replicate 200 0xAA) ?t"
    by (rule T[THEN conjunct2, THEN conjunct2, THEN conjunct2, THEN conjunct2, THEN conjunct1,
               THEN mp])
       (simp add: probed_target_def)
  have c0: "reg_cache_bytes (reg_cache (cortexa_regs_write ?W ?t)) =
      take (regs_size ?t) ?W @ drop (regs_size ?t) (reg_cache_bytes (reg_cache ?t))"
    using T[THEN conjunct2, THEN conjunct2, THEN conjunct2, THEN conjunct2, THEN conjunct2,
            THEN conjunct1] .
  have c: "reg_cache_bytes (reg_cache (cortexa_regs_write ?W ?t)) = ?W"
    unfolding c0 sz using lB lW by simp
  have szw: "regs_size (cortexa_regs_write ?W ?t) = 200"
    by (simp add: cortexa_regs_write_def probed_target_def)
  have d: "cortexa_regs_read (replicate 200 0x55) (cortexa_regs_write ?W ?t) = ?W"
    unfolding cortexa_regs_read_def szw c using lW by simp
  have u4: "[0..<4::nat] = [0, 1, 2, 3]" by (simp add: upt_conv_Cons)
  have "take 4 ?W = map of_nat (take 4 [0..<200])" by (simp only: take_map)
  also have "take 4 [0..<200::nat] = [0..<4]" by simp
  finally have tk: "take 4 ?W = [0, 1, 2, 3]" unfolding u4 by simp
  have tW: "take 200 ?W @ drop 200 (reg_cache_bytes (reg_cache ?t)) = ?W"
    using lB lW by simp
  have rc: "reg_cache (cortexa_regs_write ?W ?t) = reg_cache_of_bytes ?W"
    unfolding cortexa_regs_write_def sz tW by simp
  have s16: "(16::nat) = Suc 15" by simp
  have hd: "(words_of_bytes 4 16 ?W :: u32 list) ! 0 = le_word (take 4 ?W)"
    unfolding s16 words_of_bytes.simps by simp
  have lw: "(le_word [0, 1, 2, 3] :: u32) = 0x03020100" by simp
  have e: "r (reg_cache (cortexa_regs_write ?W ?t)) ! 0 = 0x03020100"
    unfolding rc reg_cache_of_bytes_def using hd tk lw by simp
  show ?thesis
    by (intro conjI ok sz a b c d e) simp_all
qed

section \<open>Preservation of properties\<close>

lemma preservesI: "(\<And>s. P s \<Longrightarrow> P (snd (m s))) \<Longrightarrow> preserves P m"
  by (simp add: preserves_def)

lemma preservesD: "preserves P m \<Longrightarrow> P s \<Longrightarrow> P (snd (m s))"
  by (simp add: preserves_def)

lemma preserves_returnE: "preserves P (returnE x)"
  by (simp add: preserves_def returnE_def)

lemma preserves_modify: "(\<And>s. P s \<Longrightarrow> P (f s)) \<Longrightarrow> preserves P (modify f)"
  by (simp add: preserves_def modify_def)

lemma preserves_bindE:
  assumes "preserves P m" and "\<And>x. preserves P (f x)"
  shows "preserves P (bindE m f)"
proof (rule preservesI)
  fix s assume "P s"
  then have "P (snd (m s))" using assms(1) by (rule preservesD[rotated])
  then show "P (snd (bindE m f s))"
    using assms(2) by (cases "m s") (auto simp: bindE_def preserves_def split: sum.splits)
qed

lemma preserves_thenE:
  "preserves P m \<Longrightarrow> preserves P n \<Longrightarrow> preserves P (thenE m n)"
  by (simp add: thenE_def preserves_bindE)

lemma preserves_try_catch: "preserves P m \<Longrightarrow> preserves P (try_catch c m)"
  by (auto simp: preserves_def try_catch_def split: prod.splits sum.splits)

lemma preserves_apb_write: "transport_free P \<Longrightarrow> preserves P (apb_write reg v)"
  by (auto simp: preserves_def transport_free_def apb_write_def log_req_def Let_def
        split: apb_result.splits)

lemma preserves_apb_read: "transport_free P \<Longrightarrow> preserves P (apb_read reg)"
  by (auto simp: preserves_def transport_free_def apb_read_def log_req_def Let_def
        split: apb_result.splits)

lemma preserves_read_gpreg: "transport_free P \<Longrightarrow> preserves P (read_gpreg n)"
  by (simp add: read_gpreg_def Let_def preserves_thenE preserves_apb_write preserves_apb_read)

lemma preserves_write_gpreg: "transport_free P \<Longrightarrow> preserves P (write_gpreg n v)"
  by (simp add: write_gpreg_def Let_def preserves_thenE preserves_apb_write)

lemma preserves_for_loop:
  assumes "\<And>j. preserves P (body j)"
  shows "preserves P (for_loop i n body)"
proof (rule preservesI)
  fix s assume "P s"
  then show "P (snd (for_loop i n body s))"
    using assms
  proof (induction i n body s rule: for_loop.induct)
    case (1 i n body t)
    show ?case
    proof (cases "i < n")
      case False
      then show ?thesis using "1.prems"(1) by (simp add: for_loop.simps)
    next
      case True
      have P': "P (snd (body i t))" using "1.prems" by (simp add: preserves_def)
      show ?thesis
      proof (cases "body i t")
        case (Pair res t')
        show ?thesis
        proof (cases res)
          case (Inl e)
          then show ?thesis using True Pair P' by (simp add: for_loop.simps)
        next
          case (Inr u)
          have "P (snd (for_loop (i + 1) n body t'))"
            using "1.IH"[OF True Pair[symmetric] Inr] P' Pair "1.prems"(2) by simp
          then show ?thesis using True Pair Inr by (simp add: for_loop.simps)
        qed
      qed
    qed
  qed
qed

section \<open>Loops that complete\<close>

lemma for_loop_rule:
  assumes step: "\<And>j s. i \<le> j \<Longrightarrow> j < n \<Longrightarrow> I j s \<Longrightarrow> \<exists>s'. body j s = (Inr (), s') \<and> I (Suc j) s'"
    and init: "I i t" and le: "i \<le> n"
  shows "\<exists>t'. for_loop i n body t = (Inr (), t') \<and> I n t'"
  using init le step
proof (induction i n body t rule: for_loop.induct)
  case (1 i n body t)
  show ?case
  proof (cases "i < n")
    case False
    then have "i = n" using "1.prems"(2) by simp
    then show ?thesis using "1.prems"(1) by (simp add: for_loop.simps)
  next
    case True
    from "1.prems"(3)[OF le_refl True "1.prems"(1)]
    obtain s' where s': "body i t = (Inr (), s')" "I (Suc i) s'" by blast
    have "\<exists>t'. for_loop (i + 1) n body s' = (Inr (), t') \<and> I n t'"
    proof (rule "1.IH"[OF True s'(1)[symmetric]])
      show "I (i + 1) s'" using s'(2) by simp
      show "i + 1 \<le> n" using True by simp
      show "\<And>j s. i + 1 \<le> j \<Longrightarrow> j < n \<Longrightarrow> I j s \<Longrightarrow> \<exists>s'. body j s = (Inr (), s') \<and> I (Suc j) s'"
        using "1.prems"(3) by simp
    qed simp
    then show ?thesis using True s'(1) by (simp add: for_loop.simps)
  qed
qed

section \<open>Register snapshot\<close>

lemma read_gpreg_run:
  assumes "apb_resp t (apb_count t) = Resp a" and "apb_resp t (Suc (apb_count t)) = Resp v"
  shows "read_gpreg n t =
    (Inr v, t\<lparr>apb_count := apb_count t + 2,
             trace := trace t @
               [Apb_write (base t + 4 * ucast DBGITR)
                  (MCR OR DBGDTRTXint OR push_bit 12 (ucast n AND 0xf)),
                Apb_read (base t + 4 * ucast DBGDTRTX)]\<rparr>)"
  using assms by (simp add: read_gpreg_def Let_def monad_simps apb_write_Resp apb_read_Resp)

lemma apb_ok_at:
  assumes "apb_ok t n" and "j < n"
  obtains v where "apb_resp t (apb_count t + j) = Resp v"
  using assms by (auto simp: apb_ok_def)

lemma apb_ok_shift:
  assumes "apb_ok t n" and "a + b \<le> n"
  shows "apb_ok (t\<lparr>reg_cache := c, apb_count := apb_count t + a, trace := tr\<rparr>) b"
  unfolding apb_ok_def
proof (intro allI impI)
  fix j assume "j < b"
  then have "a + j < n" using assms(2) by simp
  then obtain v where "apb_resp t (apb_count t + (a + j)) = Resp v"
    using assms(1) by (auto simp: apb_ok_def)
  then show "\<exists>v. apb_resp (t\<lparr>reg_cache := c, apb_count := apb_count t + a, trace := tr\<rparr>)
                 (apb_count (t\<lparr>reg_cache := c, apb_count := apb_count t + a, trace := tr\<rparr>) + j) = Resp v"
    by (simp add: add.assoc)
qed

lemma regs_read_gp_run:
  assumes ok: "apb_ok t 30" and len: "length (r (reg_cache t)) = 16"
  shows "\<exists>c tr. regs_read_gp t =
           (Inr (), t\<lparr>reg_cache := c, apb_count := apb_count t + 30, trace := trace t @ tr\<rparr>) \<and>
         length (r c) = 16"
proof -
  define I where "I = (\<lambda>j s. \<exists>c tr. s = t\<lparr>reg_cache := c, apb_count := apb_count t + 2 * j,
                                         trace := trace t @ tr\<rparr> \<and> length (r c) = 16)"
  have "\<exists>t'. for_loop 0 15 (\<lambda>i. bindE (read_gpreg (of_nat i)) (\<lambda>v. modify (set_r i v))) t
         = (Inr (), t') \<and> I 15 t'"
  proof (rule for_loop_rule)
    show "I 0 t" unfolding I_def
      by (rule exI[of _ "reg_cache t"], rule exI[of _ "[]"]) (simp add: len)
    show "(0::nat) \<le> 15" by simp
  next
    fix j s assume j: "j < 15" and "I j s"
    then obtain c tr where s: "s = t\<lparr>reg_cache := c, apb_count := apb_count t + 2 * j,
                                     trace := trace t @ tr\<rparr>" and c: "length (r c) = 16"
      unfolding I_def by blast
    obtain a where a: "apb_resp t (apb_count t + 2 * j) = Resp a"
      using apb_ok_at[OF ok, of "2 * j"] j by auto
    obtain v where v: "apb_resp t (apb_count t + (2 * j + 1)) = Resp v"
      using apb_ok_at[OF ok, of "2 * j + 1"] j by auto
    have a': "apb_resp s (apb_count s) = Resp a" using a by (simp add: s)
    have v': "apb_resp s (Suc (apb_count s)) = Resp v" using v by (simp add: s)
    have "bindE (read_gpreg (of_nat j)) (\<lambda>v. modify (set_r j v)) s =
            (Inr (), set_r j v (s\<lparr>apb_count := apb_count s + 2,
               trace := trace s @
                 [Apb_write (base s + 4 * ucast DBGITR)
                    (MCR OR DBGDTRTXint OR push_bit 12 (ucast (of_nat j :: u8) AND 0xf)),
                  Apb_read (base s + 4 * ucast DBGDTRTX)]\<rparr>))"
      by (simp add: bindE_apply read_gpreg_run[OF a' v'] modify_apply)
    moreover have "I (Suc j) (set_r j v (s\<lparr>apb_count := apb_count s + 2,
               trace := trace s @
                 [Apb_write (base s + 4 * ucast DBGITR)
                    (MCR OR DBGDTRTXint OR push_bit 12 (ucast (of_nat j :: u8) AND 0xf)),
                  Apb_read (base s + 4 * ucast DBGDTRTX)]\<rparr>))"
      unfolding I_def
      by (rule exI[of _ "c\<lparr>r := (r c)[j := v]\<rparr>"],
          rule exI[of _ "tr @ [Apb_write (base t + 4 * ucast DBGITR)
                    (MCR OR DBGDTRTXint OR push_bit 12 (ucast (of_nat j :: u8) AND 0xf)),
                  Apb_read (base t + 4 * ucast DBGDTRTX)]"])
         (simp add: s set_r_def c)
    ultimately show "\<exists>s'. bindE (read_gpreg (of_nat j)) (\<lambda>v. modify (set_r j v)) s = (Inr (), s')
                      \<and> I (Suc j) s'"
      by blast
  qed
  then show ?thesis unfolding regs_read_gp_def I_def by auto
qed

lemma special_read_run:
  assumes ok: "apb_ok t 2" and v: "apb_resp t (apb_count t + 2) = Resp v"
  shows "thenE (apb_write DBGITR instr) (bindE (read_gpreg 0) (\<lambda>x. modify (g x))) t =
    (Inr (), g v (t\<lparr>apb_count := apb_count t + 3,
       trace := trace t @
         [Apb_write (base t + 4 * ucast DBGITR) instr,
          Apb_write (base t + 4 * ucast DBGITR)
            (MCR OR DBGDTRTXint OR push_bit 12 (ucast (0::u8) AND 0xf)),
          Apb_read (base t + 4 * ucast DBGDTRTX)]\<rparr>))"
proof -
  obtain a where a: "apb_resp t (apb_count t) = Resp a" using apb_ok_at[OF ok, of 0] by auto
  obtain b where b: "apb_resp t (Suc (apb_count t)) = Resp b" using apb_ok_at[OF ok, of 1] by auto
  have v': "apb_resp t (Suc (Suc (apb_count t))) = Resp v" using v by (simp add: eval_nat_numeral)
  show ?thesis
    by (simp add: monad_simps apb_write_Resp apb_read_Resp read_gpreg_def Let_def a b v'
          eval_nat_numeral)
qed

lemma regs_read_vfp_run:
  assumes ok: "apb_ok t 80"
  shows "\<exists>dd tr. regs_read_vfp t =
           (Inr (), t\<lparr>reg_cache := (reg_cache t)\<lparr>d := dd\<rparr>, apb_count := apb_count t + 80,
                     trace := trace t @ tr\<rparr>)"
proof -
  define I where "I = (\<lambda>j s. \<exists>dd tr. s = t\<lparr>reg_cache := (reg_cache t)\<lparr>d := dd\<rparr>,
                                         apb_count := apb_count t + 5 * j,
                                         trace := trace t @ tr\<rparr>)"
  define body where "body = (\<lambda>i.
        thenE (apb_write DBGITR (0xEC510B10 OR of_nat i))
       (bindE (read_gpreg 1) (\<lambda>hi.
        bindE (read_gpreg 0) (\<lambda>lo.
        modify (set_d i (push_bit 32 (ucast hi) OR ucast lo))))))"
  have "\<exists>t'. for_loop 0 16 body t = (Inr (), t') \<and> I 16 t'"
  proof (rule for_loop_rule)
    show "I 0 t" unfolding I_def
      by (rule exI[of _ "d (reg_cache t)"], rule exI[of _ "[]"]) simp
    show "(0::nat) \<le> 16" by simp
  next
    fix j s assume j: "j < 16" and "I j s"
    then obtain dd tr where s: "s = t\<lparr>reg_cache := (reg_cache t)\<lparr>d := dd\<rparr>,
                                     apb_count := apb_count t + 5 * j,
                                     trace := trace t @ tr\<rparr>"
      unfolding I_def by blast
    obtain v0 where v0: "apb_resp t (apb_count t + 5 * j) = Resp v0"
      using apb_ok_at[OF ok, of "5 * j"] j by auto
    obtain v1 where v1: "apb_resp t (apb_count t + (5 * j + 1)) = Resp v1"
      using apb_ok_at[OF ok, of "5 * j + 1"] j by auto
    obtain v2 where v2: "apb_resp t (apb_count t + (5 * j + 2)) = Resp v2"
      using apb_ok_at[OF ok, of "5 * j + 2"] j by auto
    obtain v3 where v3: "apb_resp t (apb_count t + (5 * j + 3)) = Resp v3"
      using apb_ok_at[OF ok, of "5 * j + 3"] j by auto
    obtain v4 where v4: "apb_resp t (apb_count t + (5 * j + 4)) = Resp v4"
      using apb_ok_at[OF ok, of "5 * j + 4"] j by auto
    have r: "apb_resp s (apb_count s) = Resp v0"
      "apb_resp s (Suc (apb_count s)) = Resp v1"
      "apb_resp s (Suc (Suc (apb_count s))) = Resp v2"
      "apb_resp s (Suc (Suc (Suc (apb_count s)))) = Resp v3"
      "apb_resp s (Suc (Suc (Suc (Suc (apb_count s))))) = Resp v4"
      using v0 v1 v2 v3 v4 by (simp_all add: s eval_nat_numeral)
    define s' where "s' = set_d j (push_bit 32 (ucast v2) OR ucast v4)
           (s\<lparr>apb_count := apb_count s + 5,
              trace := trace s @
               [Apb_write (base s + 4 * ucast DBGITR) (0xEC510B10 OR of_nat j),
                Apb_write (base s + 4 * ucast DBGITR)
                  (MCR OR DBGDTRTXint OR push_bit 12 (ucast (1::u8) AND 0xf)),
                Apb_read (base s + 4 * ucast DBGDTRTX),
                Apb_write (base s + 4 * ucast DBGITR)
                  (MCR OR DBGDTRTXint OR push_bit 12 (ucast (0::u8) AND 0xf)),
                Apb_read (base s + 4 * ucast DBGDTRTX)]\<rparr>)"
    have s': "body j s = (Inr (), s')"
      unfolding s'_def
      by (simp add: body_def monad_simps apb_write_Resp apb_read_Resp read_gpreg_def Let_def r
            eval_nat_numeral)
    have "I (Suc j) s'"
      unfolding I_def s'_def
      by (rule exI[of _ "dd[j := push_bit 32 (ucast v2) OR ucast v4]"],
          rule exI[of _ "tr @ [Apb_write (base t + 4 * ucast DBGITR) (0xEC510B10 OR of_nat j),
                Apb_write (base t + 4 * ucast DBGITR)
                  (MCR OR DBGDTRTXint OR push_bit 12 (ucast (1::u8) AND 0xf)),
                Apb_read (base t + 4 * ucast DBGDTRTX),
                Apb_write (base t + 4 * ucast DBGITR)
                  (MCR OR DBGDTRTXint OR push_bit 12 (ucast (0::u8) AND 0xf)),
                Apb_read (base t + 4 * ucast DBGDTRTX)]"])
         (simp add: s set_d_def)
    with s' show "\<exists>s'. body j s = (Inr (), s') \<and> I (Suc j) s'" by blast
  qed
  then show ?thesis unfolding regs_read_vfp_def I_def body_def by auto
qed

lemma thumb_bit: "(c AND CPSR_THUMB \<noteq> 0) = bit (c::u32) 5"
proof -
  have "CPSR_THUMB = 2 ^ 5" by (simp add: CPSR_THUMB_def)
  then show ?thesis using and_exp_eq_0_iff_not_bit[of c 5] by (simp only:) blast
qed

lemma apb_ok_mono: "apb_ok t n \<Longrightarrow> k \<le> n \<Longrightarrow> apb_ok t k"
  by (simp add: apb_ok_def)

lemma regs_special_rel:
  assumes s: "s = t\<lparr>reg_cache := c, apb_count := apb_count t + k, trace := trace t @ tr\<rparr>"
    and ok: "apb_ok t n" and kn: "k + 3 \<le> n"
    and v: "apb_resp t (apb_count t + (k + 2)) = Resp v"
  shows "\<exists>tr'. thenE (apb_write DBGITR instr) (bindE (read_gpreg 0) (\<lambda>x. modify (g x))) s =
           (Inr (), g v (t\<lparr>reg_cache := c, apb_count := apb_count t + (k + 3),
                          trace := trace t @ tr'\<rparr>))"
proof -
  have ok': "apb_ok s 2" unfolding s by (rule apb_ok_shift[OF ok]) (use kn in simp)
  have v': "apb_resp s (apb_count s + 2) = Resp v" using v by (simp add: s add.assoc)
  show ?thesis
    unfolding special_read_run[OF ok' v']
    by (rule exI[of _ "tr @ [Apb_write (base t + 4 * ucast DBGITR) instr,
          Apb_write (base t + 4 * ucast DBGITR)
            (MCR OR DBGDTRTXint OR push_bit 12 (ucast (0::u8) AND 0xf)),
          Apb_read (base t + 4 * ucast DBGDTRTX)]"])
       (simp add: s add.assoc)
qed

lemma regs_read_vfp_rel:
  assumes s: "s = t\<lparr>reg_cache := c, apb_count := apb_count t + k, trace := trace t @ tr\<rparr>"
    and ok: "apb_ok t n" and kn: "k + 80 \<le> n"
  shows "\<exists>dd tr'. regs_read_vfp s =
           (Inr (), t\<lparr>reg_cache := c\<lparr>d := dd\<rparr>, apb_count := apb_count t + (k + 80),
                     trace := trace t @ tr'\<rparr>)"
proof -
  have ok': "apb_ok s 80" unfolding s by (rule apb_ok_shift[OF ok]) (use kn in simp)
  from regs_read_vfp_run[OF ok'] obtain dd tr2 where
    "regs_read_vfp s = (Inr (), s\<lparr>reg_cache := (reg_cache s)\<lparr>d := dd\<rparr>,
        apb_count := apb_count s + 80, trace := trace s @ tr2\<rparr>)" by blast
  then have "regs_read_vfp s =
           (Inr (), t\<lparr>reg_cache := c\<lparr>d := dd\<rparr>, apb_count := apb_count t + (k + 80),
                     trace := trace t @ (tr @ tr2)\<rparr>)"
    by (simp add: s add.assoc)
  then show ?thesis by blast
qed

lemma regs_snapshot_prefix:
  assumes len: "length (r (reg_cache t)) = 16" and ok: "apb_ok t 39"
    and pc: "apb_resp t (apb_count t + 32) = Resp pc"
    and c: "apb_resp t (apb_count t + 35) = Resp c"
  shows "\<exists>c4 tr4. cortexa_regs_read_internal t =
            thenE regs_read_vfp regs_adjust_pc
              (t\<lparr>reg_cache := c4, apb_count := apb_count t + 39, trace := trace t @ tr4\<rparr>) \<and>
          r c4 ! 15 = pc \<and> cpsr c4 = c \<and> length (r c4) = 16"
proof -
  from regs_read_gp_run[OF apb_ok_mono[OF ok] len]
  obtain c1 tr1 where g1: "regs_read_gp t =
      (Inr (), t\<lparr>reg_cache := c1, apb_count := apb_count t + 30, trace := trace t @ tr1\<rparr>)"
    and l1: "length (r c1) = 16" by auto
  have pc': "apb_resp t (apb_count t + (30 + 2)) = Resp pc" using pc by simp
  from regs_special_rel[where c=c1 and tr=tr1 and instr="0xe1a0000f" and g="set_r 15",
      OF refl ok _ pc']
  obtain tr2 where "regs_read_pc
        (t\<lparr>reg_cache := c1, apb_count := apb_count t + 30, trace := trace t @ tr1\<rparr>) =
      (Inr (), set_r 15 pc (t\<lparr>reg_cache := c1, apb_count := apb_count t + (30 + 3),
                trace := trace t @ tr2\<rparr>))"
    unfolding regs_read_pc_def by auto
  moreover have "set_r 15 pc (t\<lparr>reg_cache := c1, apb_count := apb_count t + (30 + 3),
                trace := trace t @ tr2\<rparr>) =
      t\<lparr>reg_cache := c1\<lparr>r := (r c1)[15 := pc]\<rparr>, apb_count := apb_count t + 33,
                trace := trace t @ tr2\<rparr>"
    by (simp add: set_r_def)
  ultimately have g2: "regs_read_pc
        (t\<lparr>reg_cache := c1, apb_count := apb_count t + 30, trace := trace t @ tr1\<rparr>) =
      (Inr (), t\<lparr>reg_cache := c1\<lparr>r := (r c1)[15 := pc]\<rparr>, apb_count := apb_count t + 33,
                trace := trace t @ tr2\<rparr>)"
    by simp
  have c': "apb_resp t (apb_count t + (33 + 2)) = Resp c" using c by simp
  from regs_special_rel[where c="c1\<lparr>r := (r c1)[15 := pc]\<rparr>" and tr=tr2
      and instr="0xE10F0000"
      and g="\<lambda>c t. t\<lparr>reg_cache := (reg_cache t)\<lparr>cpsr := c\<rparr>\<rparr>", OF refl ok _ c']
  obtain tr3 where "regs_read_cpsr
        (t\<lparr>reg_cache := c1\<lparr>r := (r c1)[15 := pc]\<rparr>, apb_count := apb_count t + 33,
                trace := trace t @ tr2\<rparr>) =
      (Inr (), (\<lambda>c t. t\<lparr>reg_cache := (reg_cache t)\<lparr>cpsr := c\<rparr>\<rparr>) c
         (t\<lparr>reg_cache := c1\<lparr>r := (r c1)[15 := pc]\<rparr>, apb_count := apb_count t + (33 + 3),
                trace := trace t @ tr3\<rparr>))"
    unfolding regs_read_cpsr_def by auto
  then have g3: "regs_read_cpsr
        (t\<lparr>reg_cache := c1\<lparr>r := (r c1)[15 := pc]\<rparr>, apb_count := apb_count t + 33,
                trace := trace t @ tr2\<rparr>) =
      (Inr (), t\<lparr>reg_cache := c1\<lparr>r := (r c1)[15 := pc], cpsr := c\<rparr>,
                apb_count := apb_count t + 36, trace := trace t @ tr3\<rparr>)"
    by simp
  obtain f where f: "apb_resp t (apb_count t + (36 + 2)) = Resp f"
    using apb_ok_at[OF ok, of 38] by auto
  from regs_special_rel[where c="c1\<lparr>r := (r c1)[15 := pc], cpsr := c\<rparr>" and tr=tr3
      and instr="0xeef10a10"
      and g="\<lambda>f t. t\<lparr>reg_cache := (reg_cache t)\<lparr>fpscr := f\<rparr>\<rparr>", OF refl ok _ f]
  obtain tr4 where "regs_read_fpscr
        (t\<lparr>reg_cache := c1\<lparr>r := (r c1)[15 := pc], cpsr := c\<rparr>,
                apb_count := apb_count t + 36, trace := trace t @ tr3\<rparr>) =
      (Inr (), (\<lambda>f t. t\<lparr>reg_cache := (reg_cache t)\<lparr>fpscr := f\<rparr>\<rparr>) f
         (t\<lparr>reg_cache := c1\<lparr>r := (r c1)[15 := pc], cpsr := c\<rparr>,
                apb_count := apb_count t + (36 + 3), trace := trace t @ tr4\<rparr>))"
    unfolding regs_read_fpscr_def by auto
  then have g4: "regs_read_fpscr
        (t\<lparr>reg_cache := c1\<lparr>r := (r c1)[15 := pc], cpsr := c\<rparr>,
                apb_count := apb_count t + 36, trace := trace t @ tr3\<rparr>) =
      (Inr (), t\<lparr>reg_cache := c1\<lparr>r := (r c1)[15 := pc], cpsr := c, fpscr := f\<rparr>,
                apb_count := apb_count t + 39, trace := trace t @ tr4\<rparr>)"
    by simp
  have "cortexa_regs_read_internal t =
          thenE regs_read_vfp regs_adjust_pc
            (t\<lparr>reg_cache := c1\<lparr>r := (r c1)[15 := pc], cpsr := c, fpscr := f\<rparr>,
                apb_count := apb_count t + 39, trace := trace t @ tr4\<rparr>)"
    unfolding cortexa_regs_read_internal_def
    by (subst thenE_apply, simp only: g1 prod.case sum.case,
        subst thenE_apply, simp only: g2 prod.case sum.case,
        subst thenE_apply, simp only: g3 prod.case sum.case,
        subst thenE_apply, simp only: g4 prod.case sum.case)
  moreover have "r (c1\<lparr>r := (r c1)[15 := pc], cpsr := c, fpscr := f\<rparr>) ! 15 = pc"
    using l1 by simp
  ultimately show ?thesis using l1 by (intro exI conjI) (assumption, simp_all)
qed

lemma preserves_regs_read_vfp:
  "preserves (\<lambda>s. r (reg_cache s) ! 15 = pc \<and> cpsr (reg_cache s) = c) regs_read_vfp"
  unfolding regs_read_vfp_def
  by (intro preserves_for_loop preserves_thenE preserves_bindE preserves_apb_write
        preserves_read_gpreg preserves_modify)
     (simp_all add: transport_free_def set_d_def)

lemma regs_read_vfp_raise:
  assumes "apb_resp s (apb_count s) = Raise e"
  shows "fst (regs_read_vfp s) = Inl e"
  using assms
  by (simp add: regs_read_vfp_def for_loop.simps[of 0] thenE_apply apb_write_def Let_def)

text \<open>
  Claim C7. Let the transport complete the first 39 transactions of
  \<open>cortexa_regs_read_internal\<close> (r0..r14, PC, CPSR, FPSCR), with \<open>pc\<close> the word read
  back for the PC (transaction 32) and \<open>c\<close> the one read back for the CPSR
  (transaction 35). If it also completes the 80 transactions for d0..d15, the routine
  returns with the cached CPSR equal to \<open>c\<close> and the cached r[15] equal to \<open>pc - 4\<close>
  when bit 5 of \<open>c\<close> is set and to \<open>pc - 8\<close> otherwise. The adjustment comes after the
  whole snapshot: if the routine is cut short by an exception, which can then only
  happen while d0..d15 are read, the cached r[15] is still the raw \<open>pc\<close>; an exception
  on the first of those transactions does cut it short.
\<close>

theorem regs_read_internal_pc_adjust:
  assumes "target_ok t" and "apb_ok t 39"
    and "apb_resp t (apb_count t + 32) = Resp pc"
    and "apb_resp t (apb_count t + 35) = Resp c"
  shows
  "(apb_ok t 119 \<longrightarrow>
      fst (cortexa_regs_read_internal t) = Inr () \<and>
      cpsr (reg_cache (snd (cortexa_regs_read_internal t))) = c \<and>
      r (reg_cache (snd (cortexa_regs_read_internal t))) ! 15 =
        pc - (if bit c 5 then 4 else 8)) \<and>
   (\<forall>e. fst (cortexa_regs_read_internal t) = Inl e \<longrightarrow>
      cpsr (reg_cache (snd (cortexa_regs_read_internal t))) = c \<and>
      r (reg_cache (snd (cortexa_regs_read_internal t))) ! 15 = pc) \<and>
   (\<forall>e. apb_resp t (apb_count t + 39) = Raise e \<longrightarrow>
      fst (cortexa_regs_read_internal t) = Inl e)"
proof -
  have len: "length (r (reg_cache t)) = 16" using assms(1) by (simp add: target_ok_def)
  from regs_snapshot_prefix[OF len assms(2-4)]
  obtain c4 tr4 where run: "cortexa_regs_read_internal t =
            thenE regs_read_vfp regs_adjust_pc
              (t\<lparr>reg_cache := c4, apb_count := apb_count t + 39, trace := trace t @ tr4\<rparr>)"
    and c4: "r c4 ! 15 = pc" "cpsr c4 = c" "length (r c4) = 16" by blast
  define t4 where "t4 = t\<lparr>reg_cache := c4, apb_count := apb_count t + 39, trace := trace t @ tr4\<rparr>"
  have run': "cortexa_regs_read_internal t = thenE regs_read_vfp regs_adjust_pc t4"
    using run by (simp add: t4_def)
  have P4: "r (reg_cache t4) ! 15 = pc \<and> cpsr (reg_cache t4) = c"
    using c4 by (simp add: t4_def)
  show ?thesis
  proof (intro conjI allI impI)
    assume ok: "apb_ok t 119"
    from regs_read_vfp_rel[OF t4_def ok] obtain dd tr5 where
      v: "regs_read_vfp t4 = (Inr (), t\<lparr>reg_cache := c4\<lparr>d := dd\<rparr>,
             apb_count := apb_count t + (39 + 80), trace := trace t @ tr5\<rparr>)"
      by auto
    have res: "cortexa_regs_read_internal t =
        (Inr (), set_r 15 (pc - (if c AND CPSR_THUMB \<noteq> 0 then 4 else 8))
           (t\<lparr>reg_cache := c4\<lparr>d := dd\<rparr>,
             apb_count := apb_count t + (39 + 80), trace := trace t @ tr5\<rparr>))"
      unfolding run' by (simp add: thenE_apply v regs_adjust_pc_def modify_apply c4)
    show "fst (cortexa_regs_read_internal t) = Inr ()" by (simp add: res)
    show "cpsr (reg_cache (snd (cortexa_regs_read_internal t))) = c"
      by (simp add: res set_r_def c4)
    show "r (reg_cache (snd (cortexa_regs_read_internal t))) ! 15 =
        pc - (if bit c 5 then 4 else 8)"
      using c4(3) by (simp add: res set_r_def thumb_bit)
  next
    fix e assume e: "fst (cortexa_regs_read_internal t) = Inl e"
    have P: "r (reg_cache (snd (regs_read_vfp t4))) ! 15 = pc \<and>
             cpsr (reg_cache (snd (regs_read_vfp t4))) = c"
      using preservesD[OF preserves_regs_read_vfp[of pc c], of t4] P4 by simp
    have "snd (cortexa_regs_read_internal t) = snd (regs_read_vfp t4)"
      using e unfolding run'
      by (cases "regs_read_vfp t4")
         (auto simp: thenE_apply regs_adjust_pc_def modify_apply split: sum.splits)
    with P show "cpsr (reg_cache (snd (cortexa_regs_read_internal t))) = c"
      "r (reg_cache (snd (cortexa_regs_read_internal t))) ! 15 = pc" by simp_all
  next
    fix e assume "apb_resp t (apb_count t + 39) = Raise e"
    then have "apb_resp t4 (apb_count t4) = Raise e" by (simp add: t4_def)
    from regs_read_vfp_raise[OF this]
    show "fst (cortexa_regs_read_internal t) = Inl e"
      unfolding run' by (cases "regs_read_vfp t4") (auto simp: thenE_apply)
  qed
qed

theorem regs_read_internal_pc_adjust_witness:
  "target_ok (probed_target 2 (\<lambda>n. Resp (of_nat n))) \<and>
   apb_ok (probed_target 2 (\<lambda>n. Resp (of_nat n))) 119 \<and>
   fst (cortexa_regs_read_internal (probed_target 2 (\<lambda>n. Resp (of_nat n)))) = Inr () \<and>
   cpsr (reg_cache (snd (cortexa_regs_read_internal (probed_target 2 (\<lambda>n. Resp (of_nat n)))))) = 35 \<and>
   r (reg_cache (snd (cortexa_regs_read_internal (probed_target 2 (\<lambda>n. Resp (of_nat n)))))) ! 15 = 28 \<and>
   apb_ok (probed_target 2 (\<lambda>n. if n = 39 then Raise EXCEPTION_TIMEOUT else Resp (of_nat n))) 39 \<and>
   fst (cortexa_regs_read_internal
     (probed_target 2 (\<lambda>n. if n = 39 then Raise EXCEPTION_TIMEOUT else Resp (of_nat n)))) =
     Inl EXCEPTION_TIMEOUT \<and>
   r (reg_cache (snd (cortexa_regs_read_internal
     (probed_target 2 (\<lambda>n. if n = 39 then Raise EXCEPTION_TIMEOUT else Resp (of_nat n)))))) ! 15 = 32"
proof -
  let ?t = "probed_target 2 (\<lambda>n. Resp (of_nat n))"
  let ?u = "probed_target 2 (\<lambda>n. if n = 39 then Raise EXCEPTION_TIMEOUT else Resp (of_nat n))"
  have ok: "target_ok ?t" "target_ok ?u" by (simp_all add: target_ok_def probed_target_def)
  have a119: "apb_ok ?t 119" by (simp add: apb_ok_def probed_target_def)
  have a39: "apb_ok ?t 39" "apb_ok ?u 39" by (simp_all add: apb_ok_def probed_target_def)
  have v: "apb_resp ?t (apb_count ?t + 32) = Resp 32" "apb_resp ?t (apb_count ?t + 35) = Resp 35"
    "apb_resp ?u (apb_count ?u + 32) = Resp 32" "apb_resp ?u (apb_count ?u + 35) = Resp 35"
    by (simp_all add: probed_target_def)
  have raise: "apb_resp ?u (apb_count ?u + 39) = Raise EXCEPTION_TIMEOUT"
    by (simp add: probed_target_def)
  have b: "bit (35 :: u32) 5"
    unfolding thumb_bit[symmetric] by (simp add: CPSR_THUMB_def)
  note A = regs_read_internal_pc_adjust[OF ok(1) a39(1) v(1) v(2)]
  note B = regs_read_internal_pc_adjust[OF ok(2) a39(2) v(3) v(4)]
  have 1: "fst (cortexa_regs_read_internal ?t) = Inr ()"
    "cpsr (reg_cache (snd (cortexa_regs_read_internal ?t))) = 35"
    "r (reg_cache (snd (cortexa_regs_read_internal ?t))) ! 15 = 28"
    using A[THEN conjunct1, THEN mp, OF a119] b by simp_all
  have 2: "fst (cortexa_regs_read_internal ?u) = Inl EXCEPTION_TIMEOUT"
    using B[THEN conjunct2, THEN conjunct2, THEN spec, THEN mp, OF raise] .
  have 3: "r (reg_cache (snd (cortexa_regs_read_internal ?u))) ! 15 = 32"
    using B[THEN conjunct2, THEN conjunct1, THEN spec, THEN mp, OF 2] by simp
  show ?thesis by (intro conjI ok(1) a119 1 a39(2) 2 3)
qed

section \<open>Memory read through the CPU proxy\<close>

lemma apb_ok_step:
  assumes "apb_ok s (Suc n)"
  shows "apb_ok (s\<lparr>apb_count := apb_count s + 1, trace := tr\<rparr>) n"
  using assms by (auto simp: apb_ok_def)

lemma slow_read_loop_run:
  "words - i = n \<Longrightarrow> apb_ok s n \<Longrightarrow>
   slow_read_loop i words acc s =
     (Inr (acc @ map (\<lambda>k. resp_val (apb_resp s (apb_count s + k))) [0..<n]),
      s\<lparr>apb_count := apb_count s + n,
        trace := trace s @ replicate n (Apb_read (base s + 4 * ucast DBGDTRTX))\<rparr>)"
proof (induction n arbitrary: i acc s)
  case 0
  then show ?case by (simp add: slow_read_loop.simps)
next
  case (Suc n)
  then have lt: "i < words" and n: "words - (i + 1) = n" by simp_all
  obtain v where v: "apb_resp s (apb_count s) = Resp v"
    using apb_ok_at[OF Suc.prems(2), of 0] by auto
  let ?s1 = "s\<lparr>apb_count := apb_count s + 1,
               trace := trace s @ [Apb_read (base s + 4 * ucast DBGDTRTX)]\<rparr>"
  have rd: "apb_read DBGDTRTX s = (Inr v, ?s1)" by (rule apb_read_Resp[OF v])
  have ok1: "apb_ok ?s1 n" by (rule apb_ok_step[OF Suc.prems(2)])
  have unf: "slow_read_loop i words acc s = slow_read_loop (i + 1) words (acc @ [v]) ?s1"
    by (subst slow_read_loop.simps) (simp add: lt rd)
  have m: "map (\<lambda>k. resp_val (apb_resp s (apb_count s + k))) [0..<Suc n] =
        v # map (\<lambda>k. resp_val (apb_resp ?s1 (apb_count ?s1 + k))) [0..<n]"
    by (simp add: upt_rec[of 0 "Suc n"] v map_Suc_upt[symmetric] del: upt_Suc)
  show ?case
    unfolding unf Suc.IH[OF n ok1] m by (simp add: replicate_append_same[symmetric])
qed

lemma apb_ok_later:
  assumes "apb_ok t n" and "a + b \<le> n"
    and "apb_resp s = apb_resp t" and "apb_count s = apb_count t + a"
  shows "apb_ok s b"
  unfolding apb_ok_def
proof (intro allI impI)
  fix j assume "j < b"
  then have "a + j < n" using assms(2) by simp
  then obtain v where "apb_resp t (apb_count t + (a + j)) = Resp v"
    using assms(1) by (auto simp: apb_ok_def)
  then show "\<exists>v. apb_resp s (apb_count s + j) = Resp v"
    by (simp add: assms(3,4) add.assoc)
qed

lemma slow_mem_read_start_run:
  assumes ok: "apb_ok t 6" and d1: "apb_resp t (apb_count t + 2) = Resp d1"
  shows "slow_mem_read_start src t =
    (Inr ((d1 AND NOT DBGDSCR_EXTDCCMODE_MASK) OR DBGDSCR_EXTDCCMODE_FAST),
     t\<lparr>apb_count := apb_count t + 6,
       trace := trace t @
         [Apb_write (base t + 4 * ucast DBGDTRRX) (src AND NOT 3),
          Apb_write (base t + 4 * ucast DBGITR)
            (MRC OR DBGDTRRXint OR push_bit 12 (ucast (0::u8) AND 0xf)),
          Apb_read (base t + 4 * ucast DBGDSCR),
          Apb_write (base t + 4 * ucast DBGDSCR)
            ((d1 AND NOT DBGDSCR_EXTDCCMODE_MASK) OR DBGDSCR_EXTDCCMODE_FAST),
          Apb_write (base t + 4 * ucast DBGITR) 0xecb05e01,
          Apb_read (base t + 4 * ucast DBGDTRTX)]\<rparr>)"
proof -
  obtain v0 where v0: "apb_resp t (apb_count t) = Resp v0"
    using apb_ok_at[OF ok, of 0] by auto
  obtain v1 where v1: "apb_resp t (Suc (apb_count t)) = Resp v1"
    using apb_ok_at[OF ok, of 1] by auto
  have v2: "apb_resp t (Suc (Suc (apb_count t))) = Resp d1"
    using d1 by (simp add: eval_nat_numeral)
  obtain v3 where v3: "apb_resp t (Suc (Suc (Suc (apb_count t)))) = Resp v3"
    using apb_ok_at[OF ok, of 3] by (auto simp: eval_nat_numeral)
  obtain v4 where v4: "apb_resp t (Suc (Suc (Suc (Suc (apb_count t))))) = Resp v4"
    using apb_ok_at[OF ok, of 4] by (auto simp: eval_nat_numeral)
  obtain v5 where v5: "apb_resp t (Suc (Suc (Suc (Suc (Suc (apb_count t)))))) = Resp v5"
    using apb_ok_at[OF ok, of 5] by (auto simp: eval_nat_numeral)
  show ?thesis
    by (simp add: slow_mem_read_start_def write_gpreg_def monad_simps Let_def
          apb_write_Resp apb_read_Resp v0 v1 v2 v3 v4 v5)
qed

lemma slow_mem_read_finish_run:
  assumes ok: "apb_ok s 3" and d2: "apb_resp s (apb_count s + 1) = Resp d2"
  shows "slow_mem_read_finish x s =
    (Inr (),
     s\<lparr>mmu_fault := (d2 AND DBGDSCR_SDABORT_L \<noteq> 0 \<or> mmu_fault s),
       apb_count := apb_count s + 3,
       trace := trace s @
         [Apb_write (base s + 4 * ucast DBGDSCR)
            ((x AND NOT DBGDSCR_EXTDCCMODE_MASK) OR DBGDSCR_EXTDCCMODE_STALL),
          Apb_read (base s + 4 * ucast DBGDSCR),
          (if d2 AND DBGDSCR_SDABORT_L \<noteq> 0
           then Apb_write (base s + 4 * ucast DBGDRCR) DBGDRCR_CSE
           else Apb_read (base s + 4 * ucast DBGDTRTX))]\<rparr>)"
proof -
  obtain v0 where v0: "apb_resp s (apb_count s) = Resp v0"
    using apb_ok_at[OF ok, of 0] by auto
  have v1: "apb_resp s (Suc (apb_count s)) = Resp d2" using d2 by simp
  obtain v2 where v2: "apb_resp s (Suc (Suc (apb_count s))) = Resp v2"
    using apb_ok_at[OF ok, of 2] by (auto simp: eval_nat_numeral)
  show ?thesis
    by (cases "d2 AND DBGDSCR_SDABORT_L = 0")
       (simp_all add: slow_mem_read_finish_def monad_simps Let_def
          apb_write_Resp apb_read_Resp v0 v1 v2)
qed

lemma slow_mem_read_run:
  assumes ok: "apb_ok t (9 + slow_mem_read_words src len)"
    and d1: "apb_resp t (apb_count t + 2) = Resp d1"
    and d2: "apb_resp t (apb_count t + (7 + slow_mem_read_words src len)) = Resp d2"
  shows "cortexa_slow_mem_read src len t =
    (Inr (take len (drop (unat (src AND 3)) (concat (map (le_bytes 4)
            (map (\<lambda>k. resp_val (apb_resp t (apb_count t + (6 + k))))
               [0..<slow_mem_read_words src len]))))),
     t\<lparr>mmu_fault := (d2 AND DBGDSCR_SDABORT_L \<noteq> 0 \<or> mmu_fault t),
       apb_count := apb_count t + (9 + slow_mem_read_words src len),
       trace := trace t @
         [Apb_write (base t + 4 * ucast DBGDTRRX) (src AND NOT 3),
          Apb_write (base t + 4 * ucast DBGITR)
            (MRC OR DBGDTRRXint OR push_bit 12 (ucast (0::u8) AND 0xf)),
          Apb_read (base t + 4 * ucast DBGDSCR),
          Apb_write (base t + 4 * ucast DBGDSCR)
            ((d1 AND NOT DBGDSCR_EXTDCCMODE_MASK) OR DBGDSCR_EXTDCCMODE_FAST),
          Apb_write (base t + 4 * ucast DBGITR) 0xecb05e01,
          Apb_read (base t + 4 * ucast DBGDTRTX)] @
         replicate (slow_mem_read_words src len) (Apb_read (base t + 4 * ucast DBGDTRTX)) @
         [Apb_write (base t + 4 * ucast DBGDSCR)
            ((((d1 AND NOT DBGDSCR_EXTDCCMODE_MASK) OR DBGDSCR_EXTDCCMODE_FAST)
               AND NOT DBGDSCR_EXTDCCMODE_MASK) OR DBGDSCR_EXTDCCMODE_STALL),
          Apb_read (base t + 4 * ucast DBGDSCR),
          (if d2 AND DBGDSCR_SDABORT_L \<noteq> 0
           then Apb_write (base t + 4 * ucast DBGDRCR) DBGDRCR_CSE
           else Apb_read (base t + 4 * ucast DBGDTRTX))]\<rparr>)"
proof -
  define W where "W = slow_mem_read_words src len"
  define E1 where "E1 = [Apb_write (base t + 4 * ucast DBGDTRRX) (src AND NOT 3),
          Apb_write (base t + 4 * ucast DBGITR)
            (MRC OR DBGDTRRXint OR push_bit 12 (ucast (0::u8) AND 0xf)),
          Apb_read (base t + 4 * ucast DBGDSCR),
          Apb_write (base t + 4 * ucast DBGDSCR)
            ((d1 AND NOT DBGDSCR_EXTDCCMODE_MASK) OR DBGDSCR_EXTDCCMODE_FAST),
          Apb_write (base t + 4 * ucast DBGITR) 0xecb05e01,
          Apb_read (base t + 4 * ucast DBGDTRTX)]"
  define s6 where "s6 = t\<lparr>apb_count := apb_count t + 6, trace := trace t @ E1\<rparr>"
  define s7 where "s7 = s6\<lparr>apb_count := apb_count s6 + W,
      trace := trace s6 @ replicate W (Apb_read (base s6 + 4 * ucast DBGDTRTX))\<rparr>"
  have ok6: "apb_ok t 6" using ok by (simp add: apb_ok_def)
  have start: "slow_mem_read_start src t =
      (Inr ((d1 AND NOT DBGDSCR_EXTDCCMODE_MASK) OR DBGDSCR_EXTDCCMODE_FAST), s6)"
    unfolding s6_def E1_def by (rule slow_mem_read_start_run[OF ok6 d1])
  have okW: "apb_ok s6 W"
    by (rule apb_ok_later[OF ok, of 6]) (simp_all add: s6_def W_def)
  have loop: "slow_read_loop 0 W [] s6 =
     (Inr ([] @ map (\<lambda>k. resp_val (apb_resp s6 (apb_count s6 + k))) [0..<W]), s7)"
    unfolding s7_def by (rule slow_read_loop_run[OF _ okW]) simp
  have ws: "map (\<lambda>k. resp_val (apb_resp s6 (apb_count s6 + k))) [0..<W] =
            map (\<lambda>k. resp_val (apb_resp t (apb_count t + (6 + k)))) [0..<W]"
    by (simp add: s6_def add.assoc)
  have ok3: "apb_ok s7 3"
    by (rule apb_ok_later[OF ok, of "6 + W"]) (simp_all add: s7_def s6_def W_def)
  have d2': "apb_resp s7 (apb_count s7 + 1) = Resp d2"
    using d2 by (simp add: s7_def s6_def W_def add.assoc add.commute add.left_commute)
  note fin = slow_mem_read_finish_run[OF ok3 d2',
      of "(d1 AND NOT DBGDSCR_EXTDCCMODE_MASK) OR DBGDSCR_EXTDCCMODE_FAST"]
  have "cortexa_slow_mem_read src len t =
    (Inr (take len (drop (unat (src AND 3)) (concat (map (le_bytes 4)
            (map (\<lambda>k. resp_val (apb_resp t (apb_count t + (6 + k)))) [0..<W]))))),
     s7\<lparr>mmu_fault := (d2 AND DBGDSCR_SDABORT_L \<noteq> 0 \<or> mmu_fault s7),
       apb_count := apb_count s7 + 3,
       trace := trace s7 @
         [Apb_write (base s7 + 4 * ucast DBGDSCR)
            ((((d1 AND NOT DBGDSCR_EXTDCCMODE_MASK) OR DBGDSCR_EXTDCCMODE_FAST)
               AND NOT DBGDSCR_EXTDCCMODE_MASK) OR DBGDSCR_EXTDCCMODE_STALL),
          Apb_read (base s7 + 4 * ucast DBGDSCR),
          (if d2 AND DBGDSCR_SDABORT_L \<noteq> 0
           then Apb_write (base s7 + 4 * ucast DBGDRCR) DBGDRCR_CSE
           else Apb_read (base s7 + 4 * ucast DBGDTRTX))]\<rparr>)"
    unfolding cortexa_slow_mem_read_def W_def[symmetric] Let_def
    by (simp only: bindE_apply thenE_apply returnE_apply start loop fin ws
          prod.case sum.case append_Nil)
  then show ?thesis
    unfolding W_def[symmetric] by (simp add: s7_def s6_def E1_def)
qed

lemma div4_ceiling: "int ((n + 3) div 4) = \<lceil>real n / 4\<rceil>"
proof -
  have "\<lceil>real n / 4\<rceil> = - ((- int n) div 4)"
    using ceiling_divide_eq_div[of "int n" 4] by simp
  also have "\<dots> = int ((n + 3) div 4)" by (simp add: zdiv_int)
  finally show ?thesis by simp
qed

lemma words_ceiling:
  "int (slow_mem_read_words src len) = \<lceil>(real len + real (unat (src AND 3))) / 4\<rceil>"
  unfolding slow_mem_read_words_def using div4_ceiling[of "len + unat (src AND 3)"]
  by (simp add: add.assoc)

lemma words_enough: "len + unat (src AND 3) \<le> 4 * slow_mem_read_words src len"
  unfolding slow_mem_read_words_def by presburger

lemma length_concat_le_bytes4:
  "length (concat (map (le_bytes 4) ws)) = 4 * length ws"
  by (induction ws) (simp_all add: le_bytes_def)

lemma dtrtx_reads_run:
  "dtrtx_reads b
     ([Apb_write a0 x0, Apb_write a1 x1, Apb_read (b + 4 * ucast DBGDSCR), Apb_write a3 x3,
       Apb_write a4 x4, Apb_read (b + 4 * ucast DBGDTRTX)] @
      replicate W (Apb_read (b + 4 * ucast DBGDTRTX)) @
      [Apb_write a5 x5, Apb_read (b + 4 * ucast DBGDSCR),
       (if c then Apb_write a6 x6 else Apb_read (b + 4 * ucast DBGDTRTX))]) =
   1 + W + (if c then 0 else 1)"
  by (simp add: dtrtx_reads_def DBGDSCR_def DBGDTRTX_def)

text \<open>
  Claim C5, with the number of reads as the code computes it. Let \<open>len + 6\<close> be within
  the range of \<open>size_t\<close> and let the transport complete the transactions of
  \<open>cortexa_slow_mem_read\<close>. After the first read of DBGDTRTX, whose value is dropped,
  the routine reads DBGDTRTX \<open>(len + (src & 3) + 3) / 4\<close> times in integer division,
  which is the ceiling of \<open>(len + (src & 3)) / 4\<close>, and returns the \<open>len\<close> bytes that
  start at byte offset \<open>src & 3\<close> of the words read. Then it writes DBGDSCR for stall
  mode and reads DBGDSCR: with the sticky data-abort bit set it writes CSE to DBGDRCR
  and sets \<open>mmu_fault\<close>, and still returns the bytes; otherwise it reads DBGDTRTX once
  more and leaves \<open>mmu_fault\<close> as it was.
\<close>

theorem slow_mem_read_correct:
  assumes "len + 6 < 2 ^ 32"
    and "apb_ok t (9 + slow_mem_read_words src len)"
    and "apb_resp t (apb_count t + 2) = Resp d1"
    and "apb_resp t (apb_count t + (7 + slow_mem_read_words src len)) = Resp d2"
  shows
  "int (slow_mem_read_words src len) = \<lceil>(real len + real (unat (src AND 3))) / 4\<rceil> \<and>
   fst (cortexa_slow_mem_read src len t) =
     Inr (take len (drop (unat (src AND 3)) (concat (map (le_bytes 4)
            (map (\<lambda>k. resp_val (apb_resp t (apb_count t + (6 + k))))
               [0..<slow_mem_read_words src len]))))) \<and>
   length (take len (drop (unat (src AND 3)) (concat (map (le_bytes 4)
            (map (\<lambda>k. resp_val (apb_resp t (apb_count t + (6 + k))))
               [0..<slow_mem_read_words src len]))))) = len \<and>
   new_requests t (snd (cortexa_slow_mem_read src len t)) =
     [Apb_write (base t + 4 * ucast DBGDTRRX) (src AND NOT 3),
      Apb_write (base t + 4 * ucast DBGITR)
        (MRC OR DBGDTRRXint OR push_bit 12 (ucast (0::u8) AND 0xf)),
      Apb_read (base t + 4 * ucast DBGDSCR),
      Apb_write (base t + 4 * ucast DBGDSCR)
        ((d1 AND NOT DBGDSCR_EXTDCCMODE_MASK) OR DBGDSCR_EXTDCCMODE_FAST),
      Apb_write (base t + 4 * ucast DBGITR) 0xecb05e01,
      Apb_read (base t + 4 * ucast DBGDTRTX)] @
     replicate (slow_mem_read_words src len) (Apb_read (base t + 4 * ucast DBGDTRTX)) @
     [Apb_write (base t + 4 * ucast DBGDSCR)
        ((((d1 AND NOT DBGDSCR_EXTDCCMODE_MASK) OR DBGDSCR_EXTDCCMODE_FAST)
           AND NOT DBGDSCR_EXTDCCMODE_MASK) OR DBGDSCR_EXTDCCMODE_STALL),
      Apb_read (base t + 4 * ucast DBGDSCR),
      (if d2 AND DBGDSCR_SDABORT_L \<noteq> 0
       then Apb_write (base t + 4 * ucast DBGDRCR) DBGDRCR_CSE
       else Apb_read (base t + 4 * ucast DBGDTRTX))] \<and>
   dtrtx_reads (base t) (new_requests t (snd (cortexa_slow_mem_read src len t))) =
     1 + slow_mem_read_words src len + (if d2 AND DBGDSCR_SDABORT_L \<noteq> 0 then 0 else 1) \<and>
   mmu_fault (snd (cortexa_slow_mem_read src len t)) =
     (if d2 AND DBGDSCR_SDABORT_L \<noteq> 0 then True else mmu_fault t)"
proof -
  note run = slow_mem_read_run[OF assms(2-4)]
  have nr: "new_requests t (snd (cortexa_slow_mem_read src len t)) =
     [Apb_write (base t + 4 * ucast DBGDTRRX) (src AND NOT 3),
      Apb_write (base t + 4 * ucast DBGITR)
        (MRC OR DBGDTRRXint OR push_bit 12 (ucast (0::u8) AND 0xf)),
      Apb_read (base t + 4 * ucast DBGDSCR),
      Apb_write (base t + 4 * ucast DBGDSCR)
        ((d1 AND NOT DBGDSCR_EXTDCCMODE_MASK) OR DBGDSCR_EXTDCCMODE_FAST),
      Apb_write (base t + 4 * ucast DBGITR) 0xecb05e01,
      Apb_read (base t + 4 * ucast DBGDTRTX)] @
     replicate (slow_mem_read_words src len) (Apb_read (base t + 4 * ucast DBGDTRTX)) @
     [Apb_write (base t + 4 * ucast DBGDSCR)
        ((((d1 AND NOT DBGDSCR_EXTDCCMODE_MASK) OR DBGDSCR_EXTDCCMODE_FAST)
           AND NOT DBGDSCR_EXTDCCMODE_MASK) OR DBGDSCR_EXTDCCMODE_STALL),
      Apb_read (base t + 4 * ucast DBGDSCR),
      (if d2 AND DBGDSCR_SDABORT_L \<noteq> 0
       then Apb_write (base t + 4 * ucast DBGDRCR) DBGDRCR_CSE
       else Apb_read (base t + 4 * ucast DBGDTRTX))]"
    unfolding run new_requests_def by simp
  have len: "length (take len (drop (unat (src AND 3)) (concat (map (le_bytes 4)
            (map (\<lambda>k. resp_val (apb_resp t (apb_count t + (6 + k))))
               [0..<slow_mem_read_words src len]))))) = len"
  proof -
    have "length (concat (map (le_bytes 4)
            (map (\<lambda>k. resp_val (apb_resp t (apb_count t + (6 + k))))
               [0..<slow_mem_read_words src len]))) = 4 * slow_mem_read_words src len"
      by (simp only: length_concat_le_bytes4 length_map length_upt)
    then show ?thesis
      using words_enough[of len src] by (simp only: length_take length_drop)
  qed
  show ?thesis
  proof (intro conjI)
    show "int (slow_mem_read_words src len) = \<lceil>(real len + real (unat (src AND 3))) / 4\<rceil>"
      by (rule words_ceiling)
    show "dtrtx_reads (base t) (new_requests t (snd (cortexa_slow_mem_read src len t))) =
     1 + slow_mem_read_words src len + (if d2 AND DBGDSCR_SDABORT_L \<noteq> 0 then 0 else 1)"
      unfolding nr by (rule dtrtx_reads_run)
    show "mmu_fault (snd (cortexa_slow_mem_read src len t)) =
     (if d2 AND DBGDSCR_SDABORT_L \<noteq> 0 then True else mmu_fault t)"
      unfolding run by simp
  qed (simp only: run fst_conv, rule len, rule nr)
qed

lemma probed_run_0_4:
  "dtrtx_reads 0x80090000
     (new_requests (probed_target 6 (\<lambda>_. Resp 0))
        (snd (cortexa_slow_mem_read 0 4 (probed_target 6 (\<lambda>_. Resp 0))))) = 3"
proof -
  let ?t = "probed_target 6 (\<lambda>_. Resp 0)"
  have w: "slow_mem_read_words 0 4 = 1" by (simp add: slow_mem_read_words_def)
  have ok: "apb_ok ?t (9 + slow_mem_read_words 0 4)" by (rule probed_apb_ok)
  have d1: "apb_resp ?t (apb_count ?t + 2) = Resp 0" by (simp add: probed_target_def)
  have d2: "apb_resp ?t (apb_count ?t + (7 + slow_mem_read_words 0 4)) = Resp 0"
    by (simp add: probed_target_def)
  have b: "base ?t = 0x80090000" by (simp add: probed_target_def)
  have "dtrtx_reads (base ?t) (new_requests ?t (snd (cortexa_slow_mem_read 0 4 ?t))) =
     1 + slow_mem_read_words 0 4 + (if (0::u32) AND DBGDSCR_SDABORT_L \<noteq> 0 then 0 else 1)"
    unfolding slow_mem_read_run[OF ok d1 d2] new_requests_def
    using dtrtx_reads_run[of "base ?t" _ _ _ _ _ _ _ _ "slow_mem_read_words 0 4" _ _
        "(0::u32) AND DBGDSCR_SDABORT_L \<noteq> 0"]
    by simp
  then show ?thesis by (simp add: w b)
qed

text \<open>
  Claim C5 as worded has \<open>ceil((len + (addr & 3) + 3) / 4)\<close> reads in the loop. For four
  bytes at an aligned address that is 2, and DBGDTRTX would be read four times in all;
  the code reads it three times: the dropped read, one word, the final read.
\<close>

theorem slow_mem_read_ceiling_counterexample:
  "dtrtx_reads 0x80090000
     (new_requests (probed_target 6 (\<lambda>_. Resp 0))
        (snd (cortexa_slow_mem_read 0 4 (probed_target 6 (\<lambda>_. Resp 0))))) = 3 \<and>
   1 + spec_drain_reads 0 4 + 1 = 4 \<and>
   slow_mem_read_words 0 4 \<noteq> spec_drain_reads 0 4"
  using probed_run_0_4
  by (simp add: spec_drain_reads_def slow_mem_read_words_def)

theorem slow_mem_read_correct_witness:
  "(6::nat) + 6 < 2 ^ 32 \<and>
   slow_mem_read_words 1 6 = 2 \<and>
   apb_ok (probed_target 6 (\<lambda>n. Resp (0x04030201 + of_nat n))) (9 + slow_mem_read_words 1 6) \<and>
   fst (cortexa_slow_mem_read 1 6 (probed_target 6 (\<lambda>n. Resp (0x04030201 + of_nat n)))) =
     Inr [2, 3, 4, 8, 2, 3] \<and>
   dtrtx_reads 0x80090000
     (new_requests (probed_target 6 (\<lambda>n. Resp (0x04030201 + of_nat n)))
        (snd (cortexa_slow_mem_read 1 6 (probed_target 6 (\<lambda>n. Resp (0x04030201 + of_nat n)))))) = 4 \<and>
   \<not> mmu_fault (snd (cortexa_slow_mem_read 1 6 (probed_target 6 (\<lambda>n. Resp (0x04030201 + of_nat n))))) \<and>
   apb_ok (probed_target 6 (\<lambda>_. Resp 0x40)) (9 + slow_mem_read_words 1 6) \<and>
   dtrtx_reads 0x80090000
     (new_requests (probed_target 6 (\<lambda>_. Resp 0x40))
        (snd (cortexa_slow_mem_read 1 6 (probed_target 6 (\<lambda>_. Resp 0x40))))) = 3 \<and>
   mmu_fault (snd (cortexa_slow_mem_read 1 6 (probed_target 6 (\<lambda>_. Resp 0x40))))"
proof -
  let ?t = "probed_target 6 (\<lambda>n. Resp (0x04030201 + of_nat n))"
  let ?u = "probed_target 6 (\<lambda>_. Resp 0x40)"
  have w: "slow_mem_read_words 1 6 = 2" by (simp add: slow_mem_read_words_def)
  have sz: "(6::nat) + 6 < 2 ^ 32" by simp
  have okt: "apb_ok ?t (9 + slow_mem_read_words 1 6)" by (simp add: apb_ok_def probed_target_def)
  have oku: "apb_ok ?u (9 + slow_mem_read_words 1 6)" by (rule probed_apb_ok)
  have t1: "apb_resp ?t (apb_count ?t + 2) = Resp 0x04030203" by (simp add: probed_target_def)
  have t2: "apb_resp ?t (apb_count ?t + (7 + slow_mem_read_words 1 6)) = Resp 0x0403020A"
    by (simp add: probed_target_def w)
  have u1: "apb_resp ?u (apb_count ?u + 2) = Resp 0x40" by (simp add: probed_target_def)
  have u2: "apb_resp ?u (apb_count ?u + (7 + slow_mem_read_words 1 6)) = Resp 0x40"
    by (simp add: probed_target_def)
  have bt: "base ?t = 0x80090000" "base ?u = 0x80090000" "\<not> mmu_fault ?t"
    by (simp_all add: probed_target_def)
  have ab: "(0x0403020A :: u32) AND DBGDSCR_SDABORT_L = 0" "(0x40 :: u32) AND DBGDSCR_SDABORT_L \<noteq> 0"
    by (simp_all add: DBGDSCR_SDABORT_L_def)
  note A = slow_mem_read_correct[OF sz okt t1 t2]
  note B = slow_mem_read_correct[OF sz oku u1 u2]
  have bytes: "take 6 (drop (unat ((1::u32) AND 3)) (concat (map (le_bytes 4)
            (map (\<lambda>k. resp_val (apb_resp ?t (apb_count ?t + (6 + k))))
               [0..<slow_mem_read_words 1 6])))) = [2, 3, 4, 8, 2, 3]"
    by (simp add: w probed_target_def le_bytes_def upt_conv_Cons)
  have 1: "fst (cortexa_slow_mem_read 1 6 ?t) = Inr [2, 3, 4, 8, 2, 3]"
    using A[THEN conjunct2, THEN conjunct1] unfolding bytes .
  have 2: "dtrtx_reads 0x80090000 (new_requests ?t (snd (cortexa_slow_mem_read 1 6 ?t))) = 4"
    using A[THEN conjunct2, THEN conjunct2, THEN conjunct2, THEN conjunct2, THEN conjunct1]
    by (simp add: bt w ab)
  have 3: "\<not> mmu_fault (snd (cortexa_slow_mem_read 1 6 ?t))"
    using A[THEN conjunct2, THEN conjunct2, THEN conjunct2, THEN conjunct2, THEN conjunct2]
    by (simp add: bt ab)
  have 4: "dtrtx_reads 0x80090000 (new_requests ?u (snd (cortexa_slow_mem_read 1 6 ?u))) = 3"
    using B[THEN conjunct2, THEN conjunct2, THEN conjunct2, THEN conjunct2, THEN conjunct1]
    by (simp add: bt w ab)
  have 5: "mmu_fault (snd (cortexa_slow_mem_read 1 6 ?u))"
    using B[THEN conjunct2, THEN conjunct2, THEN conjunct2, THEN conjunct2, THEN conjunct2]
    by (simp add: ab)
  show ?thesis by (intro conjI sz w okt 1 2 3 oku 4 5)
qed

section \<open>Attach\<close>

subsection \<open>Properties that the routines of the attach keep\<close>

lemma preserves_if:
  "preserves P a \<Longrightarrow> preserves P b \<Longrightarrow> preserves P (if c then a else b)"
  by simp

lemma preserves_regs_read_internal:
  assumes W: "\<And>reg v. preserves P (apb_write reg v)"
    and R: "\<And>reg. preserves P (apb_read reg)"
    and C: "\<And>s c. P s \<Longrightarrow> P (s\<lparr>reg_cache := c\<rparr>)"
  shows "preserves P cortexa_regs_read_internal"
proof -
  have G: "\<And>n. preserves P (read_gpreg n)"
    by (simp add: read_gpreg_def Let_def preserves_thenE W R)
  show ?thesis
    unfolding cortexa_regs_read_internal_def regs_read_gp_def regs_read_pc_def
      regs_read_cpsr_def regs_read_fpscr_def regs_read_vfp_def regs_adjust_pc_def
    by (intro preserves_for_loop preserves_thenE preserves_bindE W G preserves_modify)
       (simp_all add: set_r_def set_d_def C)
qed

lemma preserves_halt_wait:
  assumes W: "\<And>reg v. preserves P (apb_write reg v)"
    and R: "\<And>reg. preserves P (apb_read reg)"
    and C: "\<And>s c. P s \<Longrightarrow> P (s\<lparr>reg_cache := c\<rparr>)"
    and L: "\<And>s q. P s \<Longrightarrow> P (log_req q s)"
  shows "preserves P cortexa_halt_wait"
  unfolding cortexa_halt_wait_def
proof (rule preserves_bindE)
  show "preserves P (try_catch UNIV (apb_read DBGDSCR))"
    by (intro preserves_try_catch R)
next
  fix x :: "exception option \<times> u32 option"
  obtain e v where x: "x = (e, v)" by (cases x)
  let ?k = "\<lambda>(e :: exception option, v :: u32 option).
       case e of
         Some EXCEPTION_ERROR \<Rightarrow>
           thenE (modify (log_req Target_list_free))
          (thenE (modify (log_req Morse))
                 (returnE SIGLOST))
       | Some EXCEPTION_TIMEOUT \<Rightarrow> returnE 0
       | None \<Rightarrow>
           (let dbgdscr = (case v of Some x \<Rightarrow> x | None \<Rightarrow> 0)
            in if dbgdscr AND DBGDSCR_HALTED = 0 then returnE 0
               else
                 (let dbgdscr = dbgdscr OR DBGDSCR_ITREN
                  in thenE (apb_write DBGDSCR dbgdscr)
                     (let sig = (if dbgdscr AND DBGDSCR_MOE_MASK = DBGDSCR_MOE_HALT_REQ
                                 then SIGINT else SIGTRAP)
                      in thenE cortexa_regs_read_internal (returnE sig))))"
  have "preserves P (?k (e, v))"
  proof (cases e)
    case None
    show ?thesis
      unfolding None Let_def prod.case option.case
      by (intro preserves_if preserves_returnE preserves_thenE W
            preserves_regs_read_internal R C)
  next
    case (Some ex)
    show ?thesis
      unfolding Some prod.case option.case
      by (cases ex)
         (auto intro!: preserves_returnE preserves_thenE preserves_modify L)
  qed
  then show "preserves P (?k x)" unfolding x .
qed

lemma preserves_attach_poll:
  assumes W: "\<And>reg v. preserves P (apb_write reg v)"
    and R: "\<And>reg. preserves P (apb_read reg)"
    and C: "\<And>s c. P s \<Longrightarrow> P (s\<lparr>reg_cache := c\<rparr>)"
    and L: "\<And>s q. P s \<Longrightarrow> P (log_req q s)"
    and S: "\<And>s n. P s \<Longrightarrow> P (s\<lparr>srst_count := n\<rparr>)"
  shows "preserves P (attach_poll n)"
proof (rule preservesI)
  note H = preserves_halt_wait[of P, OF W R C L]
  fix s :: target assume "P s"
  then show "P (snd (attach_poll n s))"
  proof (induction n s rule: attach_poll.induct)
    case (1 tries t)
    let ?t1 = "t\<lparr>srst_count := srst_count t + 1, trace := trace t @ [Srst_get]\<rparr>"
    have P1: "P ?t1" using L[OF S[OF "1.prems", of "srst_count t + 1"], of Srst_get]
      by (simp add: log_req_def)
    have g: "platform_srst_get_val t = (srst_val t (srst_count t), ?t1)"
      by (simp add: platform_srst_get_val_def log_req_def)
    show ?case
    proof (cases "srst_val t (srst_count t)")
      case True
      then show ?thesis using P1 by (subst attach_poll.simps) (simp add: g)
    next
      case False
      obtain res t2 where hw: "target_halt_wait ?t1 = (res, t2)"
        by (cases "target_halt_wait ?t1")
      have P2: "P t2"
        using preservesD[OF H P1] hw by (simp add: target_halt_wait_def)
      have unf: "attach_poll tries t =
          (case res of
             Inl e \<Rightarrow> (Inl e, t2)
           | Inr sig \<Rightarrow>
               if sig \<noteq> 0 then (Inr tries, t2)
               else if tries - 1 = 0 then (Inr (tries - 1), t2)
               else attach_poll (tries - 1) (platform_delay 200 t2))"
        using False hw by (subst attach_poll.simps) (simp add: g)
      show ?thesis
      proof (cases res)
        case (Inl e)
        then show ?thesis using P2 by (simp add: unf)
      next
        case (Inr sig)
        show ?thesis
        proof (cases "sig \<noteq> 0 \<or> tries - 1 = 0")
          case True
          then show ?thesis using P2 Inr by (auto simp: unf)
        next
          case cont: False
          have P3: "P (platform_delay 200 t2)"
            using L[OF P2] by (simp add: platform_delay_def)
          have "P (snd (attach_poll (tries - 1) (platform_delay 200 t2)))"
            using "1.IH"[OF g[symmetric] False hw[symmetric] Inr] cont P3 by simp
          then show ?thesis using Inr cont by (simp add: unf)
        qed
      qed
    qed
  qed
qed

lemma preserves_attach_clear:
  assumes W: "\<And>reg v. preserves P (apb_write reg v)"
    and L: "\<And>s q. P s \<Longrightarrow> P (log_req q s)"
    and B: "\<And>s h. P s \<Longrightarrow> P (s\<lparr>hw_breakpoint := h\<rparr>)"
  shows "preserves P attach_clear_breakpoints"
proof (rule preservesI)
  fix s :: target assume P: "P s"
  have lp: "preserves P (for_loop 0 (hw_breakpoint_max s) clear_breakpoint)"
    unfolding clear_breakpoint_def
    by (intro preserves_for_loop preserves_thenE W preserves_modify B)
  have rest: "preserves P (thenE (platform_srst_set_val False) (returnE True))"
    unfolding platform_srst_set_val_def
    by (intro preserves_thenE preserves_modify preserves_returnE L)
  have P1: "P (snd (for_loop 0 (hw_breakpoint_max s) clear_breakpoint s))"
    by (rule preservesD[OF lp P])
  show "P (snd (attach_clear_breakpoints s))"
  proof (cases "for_loop 0 (hw_breakpoint_max s) clear_breakpoint s")
    case (Pair res s1)
    show ?thesis
    proof (cases res)
      case (Inl e)
      then show ?thesis using P1 Pair by (simp add: attach_clear_breakpoints_def thenE_apply)
    next
      case (Inr u)
      have "P (snd (thenE (platform_srst_set_val False) (returnE True) s1))"
        using preservesD[OF rest, of s1] P1 Pair by simp
      then show ?thesis using Pair Inr
        by (simp add: attach_clear_breakpoints_def thenE_apply[of "\<lambda>t. for_loop 0 (hw_breakpoint_max t) clear_breakpoint t"])
    qed
  qed
qed

text \<open>The table of breakpoints, the comparator count and the base address.\<close>

lemma transport_free_bp:
  "transport_free (\<lambda>s. hw_breakpoint s = H \<and> hw_breakpoint_max s = M \<and> base s = B)"
  by (simp add: transport_free_def)

lemma preserves_attach_poll_bp:
  "preserves (\<lambda>s. hw_breakpoint s = H \<and> hw_breakpoint_max s = M \<and> base s = B) (attach_poll n)"
  by (rule preserves_attach_poll)
     (simp_all add: preserves_apb_write preserves_apb_read transport_free_bp log_req_def)

text \<open>The log only grows, and by requests of a given kind.\<close>

lemma grows_apb_write:
  assumes "\<And>a v. Apb_write a v \<in> A"
  shows "preserves (\<lambda>s. \<exists>tr. trace s = T @ tr \<and> set tr \<subseteq> A) (apb_write reg v)"
proof (rule preservesI)
  fix s :: target assume "\<exists>tr. trace s = T @ tr \<and> set tr \<subseteq> A"
  then obtain tr where tr: "trace s = T @ tr" "set tr \<subseteq> A" by blast
  have "trace (snd (apb_write reg v s)) = T @ (tr @ [Apb_write (base s + 4 * ucast reg) v])"
    by (simp add: apb_write_def log_req_def Let_def tr split: apb_result.splits)
  moreover have "set (tr @ [Apb_write (base s + 4 * ucast reg) v]) \<subseteq> A"
    using tr(2) assms by simp
  ultimately show "\<exists>tr. trace (snd (apb_write reg v s)) = T @ tr \<and> set tr \<subseteq> A" by blast
qed

lemma grows_apb_read:
  assumes "\<And>a. Apb_read a \<in> A"
  shows "preserves (\<lambda>s. \<exists>tr. trace s = T @ tr \<and> set tr \<subseteq> A) (apb_read reg)"
proof (rule preservesI)
  fix s :: target assume "\<exists>tr. trace s = T @ tr \<and> set tr \<subseteq> A"
  then obtain tr where tr: "trace s = T @ tr" "set tr \<subseteq> A" by blast
  have "trace (snd (apb_read reg s)) = T @ (tr @ [Apb_read (base s + 4 * ucast reg)])"
    by (simp add: apb_read_def log_req_def Let_def tr split: apb_result.splits)
  moreover have "set (tr @ [Apb_read (base s + 4 * ucast reg)]) \<subseteq> A"
    using tr(2) assms by simp
  ultimately show "\<exists>tr. trace (snd (apb_read reg s)) = T @ tr \<and> set tr \<subseteq> A" by blast
qed

lemma grows_apb_write_any:
  "preserves (\<lambda>s. \<exists>tr. trace s = T @ tr) (apb_write reg v)"
  using grows_apb_write[of UNIV T reg v] by simp

lemma grows_apb_read_any:
  "preserves (\<lambda>s. \<exists>tr. trace s = T @ tr) (apb_read reg)"
  using grows_apb_read[of UNIV T reg] by simp

lemma regs_read_internal_quiet:
  "\<exists>tr. trace (snd (cortexa_regs_read_internal s)) = trace s @ tr \<and>
        (\<forall>q\<in>set tr. \<not> platform_request q)"
proof -
  let ?A = "{q. \<not> platform_request q}"
  have "preserves (\<lambda>s'. \<exists>tr. trace s' = trace s @ tr \<and> set tr \<subseteq> ?A)
          cortexa_regs_read_internal"
    by (rule preserves_regs_read_internal)
       (simp_all add: grows_apb_write grows_apb_read)
  from preservesD[OF this, of s]
  obtain tr where "trace (snd (cortexa_regs_read_internal s)) = trace s @ tr" "set tr \<subseteq> ?A"
    by auto
  then show ?thesis by blast
qed

lemma attach_poll_grows:
  "\<exists>tr. trace (snd (attach_poll n s)) = trace s @ tr"
proof -
  have "preserves (\<lambda>s'. \<exists>tr. trace s' = trace s @ tr) (attach_poll n)"
    by (rule preserves_attach_poll)
       (auto simp: grows_apb_write_any grows_apb_read_any log_req_def)
  from preservesD[OF this, of s] show ?thesis by simp
qed

lemma attach_clear_grows:
  "\<exists>tr. trace (snd (attach_clear_breakpoints s)) = trace s @ tr"
proof -
  have "preserves (\<lambda>s'. \<exists>tr. trace s' = trace s @ tr) attach_clear_breakpoints"
    by (rule preserves_attach_clear)
       (auto simp: grows_apb_write_any log_req_def)
  from preservesD[OF this, of s] show ?thesis by simp
qed

subsection \<open>The polling loop\<close>

lemma halt_wait_not_halted:
  assumes "not_halted (apb_resp s (apb_count s))"
  shows "cortexa_halt_wait s =
    (Inr 0, s\<lparr>apb_count := apb_count s + 1,
             trace := trace s @ [Apb_read (base s + 4 * ucast DBGDSCR)]\<rparr>)"
proof (cases "apb_resp s (apb_count s)")
  case (Resp v)
  with assms have "v AND DBGDSCR_HALTED = 0" by (simp add: not_halted_def)
  then show ?thesis
    by (simp add: cortexa_halt_wait_def bindE_apply try_catch_def apb_read_Resp[OF Resp]
          returnE_apply Let_def)
next
  case (Raise e)
  with assms have e: "e = EXCEPTION_TIMEOUT" by (simp add: not_halted_def)
  show ?thesis
    by (simp add: cortexa_halt_wait_def bindE_apply try_catch_def apb_read_def Raise e
          returnE_apply Let_def log_req_def)
qed

lemma thenE_returnE_fst:
  "fst (thenE m (returnE x) s) = Inr y \<Longrightarrow> y = x"
  by (cases "m s") (auto simp: thenE_apply returnE_apply split: sum.splits)

lemma halt_wait_other:
  assumes "\<not> not_halted (apb_resp s (apb_count s))"
  shows "fst (cortexa_halt_wait s) \<noteq> Inr 0"
proof (cases "apb_resp s (apb_count s)")
  case (Raise e)
  with assms have e: "e = EXCEPTION_ERROR" by (cases e) (simp_all add: not_halted_def)
  show ?thesis
    by (simp add: cortexa_halt_wait_def bindE_apply try_catch_def apb_read_def Raise e
          returnE_apply thenE_apply modify_apply Let_def log_req_def SIGLOST_def)
next
  case (Resp v)
  with assms have h: "v AND DBGDSCR_HALTED \<noteq> 0" by (simp add: not_halted_def)
  let ?s1 = "s\<lparr>apb_count := apb_count s + 1,
               trace := trace s @ [Apb_read (base s + 4 * ucast DBGDSCR)]\<rparr>"
  let ?sig = "if (v OR DBGDSCR_ITREN) AND DBGDSCR_MOE_MASK = DBGDSCR_MOE_HALT_REQ
              then SIGINT else SIGTRAP"
  have eq: "cortexa_halt_wait s =
      thenE (apb_write DBGDSCR (v OR DBGDSCR_ITREN))
        (thenE cortexa_regs_read_internal (returnE ?sig)) ?s1"
    using h
    by (simp add: cortexa_halt_wait_def bindE_apply try_catch_def apb_read_Resp[OF Resp] Let_def)
  show ?thesis
  proof
    assume z: "fst (cortexa_halt_wait s) = Inr 0"
    then obtain s' where "cortexa_halt_wait s = (Inr 0, s')" by (cases "cortexa_halt_wait s") auto
    then have "thenE (apb_write DBGDSCR (v OR DBGDSCR_ITREN))
        (thenE cortexa_regs_read_internal (returnE ?sig)) ?s1 = (Inr 0, s')" using eq by simp
    then obtain s2 where "thenE cortexa_regs_read_internal (returnE ?sig) s2 = (Inr 0, s')"
      by (rule thenE_InrE)
    then have "fst (thenE cortexa_regs_read_internal (returnE ?sig) s2) = Inr 0" by simp
    then have "0 = ?sig" by (rule thenE_returnE_fst)
    then show False by (simp add: SIGINT_def SIGTRAP_def split: if_splits)
  qed
qed

lemma srst_get_apply:
  "platform_srst_get_val s =
     (srst_val s (srst_count s),
      s\<lparr>srst_count := srst_count s + 1, trace := trace s @ [Srst_get]\<rparr>)"
  by (simp add: platform_srst_get_val_def log_req_def)

lemma attach_poll_srst:
  assumes "srst_val s (srst_count s)"
  shows "attach_poll n s =
    (Inr n, s\<lparr>srst_count := srst_count s + 1, trace := trace s @ [Srst_get]\<rparr>)"
  by (subst attach_poll.simps) (simp add: srst_get_apply assms)

lemma attach_poll_step:
  assumes "\<not> srst_val s (srst_count s)" and "not_halted (apb_resp s (apb_count s))"
  shows "attach_poll (Suc m) s =
    (if m = 0
     then (Inr 0, s\<lparr>apb_count := apb_count s + 1, srst_count := srst_count s + 1,
                    trace := trace s @ [Srst_get, Apb_read (base s + 4 * ucast DBGDSCR)]\<rparr>)
     else attach_poll m
            (s\<lparr>apb_count := apb_count s + 1, srst_count := srst_count s + 1,
               trace := trace s @
                 [Srst_get, Apb_read (base s + 4 * ucast DBGDSCR), Delay 200]\<rparr>))"
proof -
  let ?s1 = "s\<lparr>srst_count := srst_count s + 1, trace := trace s @ [Srst_get]\<rparr>"
  have nh: "not_halted (apb_resp ?s1 (apb_count ?s1))" using assms(2) by simp
  have hw: "cortexa_halt_wait (s\<lparr>srst_count := Suc (srst_count s), trace := trace s @ [Srst_get]\<rparr>) =
     (Inr 0, s\<lparr>apb_count := Suc (apb_count s), srst_count := Suc (srst_count s),
        trace := trace s @ [Srst_get, Apb_read (base s + 4 * ucast DBGDSCR)]\<rparr>)"
    using halt_wait_not_halted[OF nh] by simp
  show ?thesis
    by (subst attach_poll.simps)
       (simp add: srst_get_apply assms(1) target_halt_wait_def hw
          platform_delay_def log_req_def)
qed

lemma attach_poll_stop:
  assumes "\<not> srst_val s (srst_count s)" and "\<not> not_halted (apb_resp s (apb_count s))"
  shows "fst (attach_poll (Suc m) s) \<noteq> Inr 0"
proof -
  let ?s1 = "s\<lparr>srst_count := srst_count s + 1, trace := trace s @ [Srst_get]\<rparr>"
  have nh: "\<not> not_halted (apb_resp ?s1 (apb_count ?s1))" using assms(2) by simp
  have "fst (cortexa_halt_wait ?s1) \<noteq> Inr 0" by (rule halt_wait_other[OF nh])
  then have ne: "fst (cortexa_halt_wait
      (s\<lparr>srst_count := Suc (srst_count s), trace := trace s @ [Srst_get]\<rparr>)) \<noteq> Inr 0"
    by simp
  show ?thesis
    using ne
    by (subst attach_poll.simps,
        cases "cortexa_halt_wait
          (s\<lparr>srst_count := Suc (srst_count s), trace := trace s @ [Srst_get]\<rparr>)")
       (auto simp: srst_get_apply assms(1) target_halt_wait_def split: sum.splits)
qed

lemma failed_polls_Suc:
  "failed_polls b (Suc (Suc m)) =
     [Srst_get, Apb_read (b + 4 * ucast DBGDSCR), Delay 200] @ failed_polls b (Suc m)"
  by (simp add: failed_polls_def)

lemma attach_poll_fail_run:
  "(\<forall>j<Suc m. \<not> srst_val s (srst_count s + j) \<and> not_halted (apb_resp s (apb_count s + j))) \<Longrightarrow>
   attach_poll (Suc m) s =
     (Inr 0, s\<lparr>apb_count := apb_count s + Suc m, srst_count := srst_count s + Suc m,
              trace := trace s @ failed_polls (base s) (Suc m)\<rparr>)"
proof (induction m arbitrary: s)
  case 0
  then have "\<not> srst_val s (srst_count s)" "not_halted (apb_resp s (apb_count s))" by auto
  from attach_poll_step[OF this, of 0] show ?case by (simp add: failed_polls_def)
next
  case (Suc m)
  have c0: "\<not> srst_val s (srst_count s)" "not_halted (apb_resp s (apb_count s))"
    using Suc.prems[rule_format, of 0] by auto
  let ?s' = "s\<lparr>apb_count := apb_count s + 1, srst_count := srst_count s + 1,
               trace := trace s @
                 [Srst_get, Apb_read (base s + 4 * ucast DBGDSCR), Delay 200]\<rparr>"
  have "\<forall>j<Suc m. \<not> srst_val ?s' (srst_count ?s' + j) \<and>
           not_halted (apb_resp ?s' (apb_count ?s' + j))"
  proof (intro allI impI)
    fix j assume "j < Suc m"
    then have "Suc j < Suc (Suc m)" by simp
    from Suc.prems[rule_format, OF this]
    show "\<not> srst_val ?s' (srst_count ?s' + j) \<and> not_halted (apb_resp ?s' (apb_count ?s' + j))"
      by simp
  qed
  from Suc.IH[OF this] attach_poll_step[OF c0, of "Suc m"]
  show ?case by (simp add: failed_polls_Suc)
qed

lemma attach_poll_zero_only:
  "fst (attach_poll (Suc m) s) = Inr 0 \<Longrightarrow>
   (\<forall>j<Suc m. \<not> srst_val s (srst_count s + j) \<and> not_halted (apb_resp s (apb_count s + j)))"
proof (induction m arbitrary: s)
  case 0
  have a: "\<not> srst_val s (srst_count s)"
    using 0 attach_poll_srst[of s "Suc 0"] by auto
  have b: "not_halted (apb_resp s (apb_count s))"
    using 0 attach_poll_stop[OF a, of 0] by auto
  show ?case using a b by simp
next
  case (Suc m)
  have a: "\<not> srst_val s (srst_count s)"
    using Suc.prems attach_poll_srst[of s "Suc (Suc m)"] by auto
  have b: "not_halted (apb_resp s (apb_count s))"
    using Suc.prems attach_poll_stop[OF a, of "Suc m"] by auto
  let ?s' = "s\<lparr>apb_count := apb_count s + 1, srst_count := srst_count s + 1,
               trace := trace s @
                 [Srst_get, Apb_read (base s + 4 * ucast DBGDSCR), Delay 200]\<rparr>"
  have "fst (attach_poll (Suc m) ?s') = Inr 0"
    using Suc.prems attach_poll_step[OF a b, of "Suc m"] by simp
  from Suc.IH[OF this] have rest: "\<forall>j<Suc m. \<not> srst_val s (Suc (srst_count s + j)) \<and>
       not_halted (apb_resp s (Suc (apb_count s + j)))" by simp
  show ?case
  proof (intro allI impI)
    fix j assume "j < Suc (Suc m)"
    then show "\<not> srst_val s (srst_count s + j) \<and> not_halted (apb_resp s (apb_count s + j))"
      using a b rest by (cases j) auto
  qed
qed

lemma attach_poll_srst_at:
  "(\<forall>j<k. \<not> srst_val s (srst_count s + j) \<and> not_halted (apb_resp s (apb_count s + j))) \<Longrightarrow>
   srst_val s (srst_count s + k) \<Longrightarrow> k < n \<Longrightarrow>
   attach_poll n s =
     (Inr (n - k),
      s\<lparr>apb_count := apb_count s + k, srst_count := srst_count s + Suc k,
        trace := trace s @ delayed_polls (base s) k @ [Srst_get]\<rparr>)"
proof (induction k arbitrary: n s)
  case 0
  then show ?case using attach_poll_srst[of s n] by (simp add: delayed_polls_def)
next
  case (Suc k)
  from Suc.prems(3) obtain m where n: "n = Suc m" and m: "k < m" by (cases n) auto
  have c0: "\<not> srst_val s (srst_count s)" "not_halted (apb_resp s (apb_count s))"
    using Suc.prems(1)[rule_format, of 0] by auto
  let ?s' = "s\<lparr>apb_count := apb_count s + 1, srst_count := srst_count s + 1,
               trace := trace s @
                 [Srst_get, Apb_read (base s + 4 * ucast DBGDSCR), Delay 200]\<rparr>"
  have pre: "\<forall>j<k. \<not> srst_val ?s' (srst_count ?s' + j) \<and>
           not_halted (apb_resp ?s' (apb_count ?s' + j))"
  proof (intro allI impI)
    fix j assume "j < k"
    then have "Suc j < Suc k" by simp
    from Suc.prems(1)[rule_format, OF this]
    show "\<not> srst_val ?s' (srst_count ?s' + j) \<and> not_halted (apb_resp ?s' (apb_count ?s' + j))"
      by simp
  qed
  have at: "srst_val ?s' (srst_count ?s' + k)" using Suc.prems(2) by simp
  have step: "attach_poll (Suc m) s = attach_poll m ?s'"
    using attach_poll_step[OF c0, of m] m by simp
  show ?case
    unfolding n step Suc.IH[OF pre at m] by (simp add: delayed_polls_def)
qed

subsection \<open>A poll that finds the core halted\<close>

lemma regs_read_internal_run:
  assumes len: "length (r (reg_cache t)) = 16" and ok: "apb_ok t 119"
  shows "\<exists>c tr. cortexa_regs_read_internal t =
           (Inr (), t\<lparr>reg_cache := c, apb_count := apb_count t + 119,
                      trace := trace t @ tr\<rparr>) \<and>
         (\<forall>q\<in>set tr. \<not> platform_request q)"
proof -
  obtain pc where pc: "apb_resp t (apb_count t + 32) = Resp pc"
    using apb_ok_at[OF ok, of 32] by auto
  obtain c where c: "apb_resp t (apb_count t + 35) = Resp c"
    using apb_ok_at[OF ok, of 35] by auto
  have ok39: "apb_ok t 39" by (rule apb_ok_mono[OF ok]) simp
  from regs_snapshot_prefix[OF len ok39 pc c]
  obtain c4 tr4 where run: "cortexa_regs_read_internal t =
            thenE regs_read_vfp regs_adjust_pc
              (t\<lparr>reg_cache := c4, apb_count := apb_count t + 39, trace := trace t @ tr4\<rparr>)"
    by blast
  from regs_read_vfp_rel[where c=c4 and tr=tr4 and k=39, OF refl ok] obtain dd tr5 where
    v: "regs_read_vfp (t\<lparr>reg_cache := c4, apb_count := apb_count t + 39,
             trace := trace t @ tr4\<rparr>) =
         (Inr (), t\<lparr>reg_cache := c4\<lparr>d := dd\<rparr>,
             apb_count := apb_count t + 119, trace := trace t @ tr5\<rparr>)"
    by auto
  have adj: "\<exists>c. regs_adjust_pc u = (Inr (), u\<lparr>reg_cache := c\<rparr>)" for u
    unfolding regs_adjust_pc_def modify_apply set_r_def by blast
  from adj[of "t\<lparr>reg_cache := c4\<lparr>d := dd\<rparr>,
             apb_count := apb_count t + 119, trace := trace t @ tr5\<rparr>"]
  obtain c5 where a5: "regs_adjust_pc (t\<lparr>reg_cache := c4\<lparr>d := dd\<rparr>,
             apb_count := apb_count t + 119, trace := trace t @ tr5\<rparr>) =
      (Inr (), t\<lparr>reg_cache := c4\<lparr>d := dd\<rparr>,
             apb_count := apb_count t + 119, trace := trace t @ tr5\<rparr>\<lparr>reg_cache := c5\<rparr>)"
    by blast
  have "cortexa_regs_read_internal t =
        (Inr (), t\<lparr>reg_cache := c5, apb_count := apb_count t + 119, trace := trace t @ tr5\<rparr>)"
    unfolding run by (simp add: thenE_apply v a5)
  then have "\<exists>c. cortexa_regs_read_internal t =
        (Inr (), t\<lparr>reg_cache := c, apb_count := apb_count t + 119, trace := trace t @ tr5\<rparr>)"
    by blast
  then obtain c' where e: "cortexa_regs_read_internal t =
        (Inr (), t\<lparr>reg_cache := c', apb_count := apb_count t + 119, trace := trace t @ tr5\<rparr>)"
    by blast
  from regs_read_internal_quiet[of t] obtain tr' where
    "trace (snd (cortexa_regs_read_internal t)) = trace t @ tr'"
    and q: "\<forall>q\<in>set tr'. \<not> platform_request q" by blast
  then have "tr5 = tr'" using e by simp
  with e q show ?thesis by blast
qed

lemma halt_wait_halted_run:
  assumes v: "apb_resp s (apb_count s) = Resp v" and h: "v AND DBGDSCR_HALTED \<noteq> 0"
    and ok: "apb_ok s 121" and len: "length (r (reg_cache s)) = 16"
  shows "\<exists>sig c tr. cortexa_halt_wait s =
      (Inr sig, s\<lparr>reg_cache := c, apb_count := apb_count s + 121,
         trace := trace s @
           [Apb_read (base s + 4 * ucast DBGDSCR),
            Apb_write (base s + 4 * ucast DBGDSCR) (v OR DBGDSCR_ITREN)] @ tr\<rparr>) \<and>
      sig \<noteq> 0 \<and> (\<forall>q\<in>set tr. \<not> platform_request q)"
proof -
  let ?s1 = "s\<lparr>apb_count := apb_count s + 1,
               trace := trace s @ [Apb_read (base s + 4 * ucast DBGDSCR)]\<rparr>"
  let ?s2 = "s\<lparr>apb_count := apb_count s + 2,
               trace := trace s @ [Apb_read (base s + 4 * ucast DBGDSCR),
                 Apb_write (base s + 4 * ucast DBGDSCR) (v OR DBGDSCR_ITREN)]\<rparr>"
  let ?sig = "if (v OR DBGDSCR_ITREN) AND DBGDSCR_MOE_MASK = DBGDSCR_MOE_HALT_REQ
              then SIGINT else SIGTRAP"
  have eq: "cortexa_halt_wait s =
      thenE (apb_write DBGDSCR (v OR DBGDSCR_ITREN))
        (thenE cortexa_regs_read_internal (returnE ?sig)) ?s1"
    using h
    by (simp add: cortexa_halt_wait_def bindE_apply try_catch_def apb_read_Resp[OF v] Let_def)
  obtain w where w: "apb_resp s (apb_count s + 1) = Resp w"
    using apb_ok_at[OF ok, of 1] by auto
  have wr: "apb_write DBGDSCR (v OR DBGDSCR_ITREN) ?s1 = (Inr (), ?s2)"
    using w by (simp add: apb_write_Resp)
  have ok2: "apb_ok ?s2 119"
    unfolding apb_ok_def
  proof (intro allI impI)
    fix j :: nat assume "j < 119"
    then have "2 + j < 121" by simp
    from apb_ok_at[OF ok this] obtain x where "apb_resp s (apb_count s + (2 + j)) = Resp x" .
    then show "\<exists>x. apb_resp ?s2 (apb_count ?s2 + j) = Resp x" by (simp add: add.assoc)
  qed
  have len2: "length (r (reg_cache ?s2)) = 16" using len by simp
  from regs_read_internal_run[OF len2 ok2] obtain c tr where
    rr: "cortexa_regs_read_internal ?s2 =
          (Inr (), ?s2\<lparr>reg_cache := c, apb_count := apb_count ?s2 + 119,
                       trace := trace ?s2 @ tr\<rparr>)"
    and q: "\<forall>q\<in>set tr. \<not> platform_request q" by blast
  have st: "?s2\<lparr>reg_cache := c, apb_count := apb_count ?s2 + 119, trace := trace ?s2 @ tr\<rparr> =
      s\<lparr>reg_cache := c, apb_count := apb_count s + 121,
         trace := trace s @
           [Apb_read (base s + 4 * ucast DBGDSCR),
            Apb_write (base s + 4 * ucast DBGDSCR) (v OR DBGDSCR_ITREN)] @ tr\<rparr>"
    by simp
  have "cortexa_halt_wait s =
      (Inr ?sig, s\<lparr>reg_cache := c, apb_count := apb_count s + 121,
         trace := trace s @
           [Apb_read (base s + 4 * ucast DBGDSCR),
            Apb_write (base s + 4 * ucast DBGDSCR) (v OR DBGDSCR_ITREN)] @ tr\<rparr>)"
    unfolding eq st[symmetric]
    by (simp only: thenE_apply wr prod.case sum.case rr returnE_apply)
  moreover have "?sig \<noteq> 0" by (simp add: SIGINT_def SIGTRAP_def)
  ultimately show ?thesis using q by blast
qed

lemma attach_poll_halted:
  assumes ns: "\<not> srst_val s (srst_count s)"
    and v: "apb_resp s (apb_count s) = Resp v" and h: "v AND DBGDSCR_HALTED \<noteq> 0"
    and ok: "apb_ok s 121" and len: "length (r (reg_cache s)) = 16"
  shows "\<exists>c tr. attach_poll n s =
      (Inr n, s\<lparr>reg_cache := c, apb_count := apb_count s + 121,
         srst_count := srst_count s + 1,
         trace := trace s @
           [Srst_get, Apb_read (base s + 4 * ucast DBGDSCR),
            Apb_write (base s + 4 * ucast DBGDSCR) (v OR DBGDSCR_ITREN)] @ tr\<rparr>) \<and>
      (\<forall>q\<in>set tr. \<not> platform_request q)"
proof -
  let ?s1 = "s\<lparr>srst_count := srst_count s + 1, trace := trace s @ [Srst_get]\<rparr>"
  have v1: "apb_resp ?s1 (apb_count ?s1) = Resp v" using v by simp
  have ok1: "apb_ok ?s1 121" using ok by (simp add: apb_ok_def)
  have len1: "length (r (reg_cache ?s1)) = 16" using len by simp
  from halt_wait_halted_run[OF v1 h ok1 len1] obtain sig c tr where
    hw: "cortexa_halt_wait ?s1 =
      (Inr sig, ?s1\<lparr>reg_cache := c, apb_count := apb_count ?s1 + 121,
         trace := trace ?s1 @
           [Apb_read (base ?s1 + 4 * ucast DBGDSCR),
            Apb_write (base ?s1 + 4 * ucast DBGDSCR) (v OR DBGDSCR_ITREN)] @ tr\<rparr>)"
    and sig: "sig \<noteq> 0" and q: "\<forall>q\<in>set tr. \<not> platform_request q" by blast
  have hw': "cortexa_halt_wait
        (s\<lparr>srst_count := Suc (srst_count s), trace := trace s @ [Srst_get]\<rparr>) =
      (Inr sig, s\<lparr>reg_cache := c, apb_count := apb_count s + 121,
         srst_count := srst_count s + 1,
         trace := trace s @
           [Srst_get, Apb_read (base s + 4 * ucast DBGDSCR),
            Apb_write (base s + 4 * ucast DBGDSCR) (v OR DBGDSCR_ITREN)] @ tr\<rparr>)"
    using hw by simp
  have "attach_poll n s =
      (Inr n, s\<lparr>reg_cache := c, apb_count := apb_count s + 121,
         srst_count := srst_count s + 1,
         trace := trace s @
           [Srst_get, Apb_read (base s + 4 * ucast DBGDSCR),
            Apb_write (base s + 4 * ucast DBGDSCR) (v OR DBGDSCR_ITREN)] @ tr\<rparr>)"
    by (subst attach_poll.simps)
       (simp add: srst_get_apply ns target_halt_wait_def hw' sig)
  with q show ?thesis by blast
qed

lemma attach_poll_halted_at:
  "(\<forall>j<k. \<not> srst_val s (srst_count s + j) \<and> not_halted (apb_resp s (apb_count s + j))) \<Longrightarrow>
   \<not> srst_val s (srst_count s + k) \<Longrightarrow>
   apb_resp s (apb_count s + k) = Resp v \<Longrightarrow> v AND DBGDSCR_HALTED \<noteq> 0 \<Longrightarrow>
   (\<forall>i<121. \<exists>w. apb_resp s (apb_count s + k + i) = Resp w) \<Longrightarrow>
   length (r (reg_cache s)) = 16 \<Longrightarrow> k < n \<Longrightarrow>
   \<exists>c tr. attach_poll n s =
     (Inr (n - k),
      s\<lparr>reg_cache := c, apb_count := apb_count s + k + 121,
        srst_count := srst_count s + Suc k,
        trace := trace s @ delayed_polls (base s) k @
          [Srst_get, Apb_read (base s + 4 * ucast DBGDSCR),
           Apb_write (base s + 4 * ucast DBGDSCR) (v OR DBGDSCR_ITREN)] @ tr\<rparr>) \<and>
     (\<forall>q\<in>set tr. \<not> platform_request q)"
proof (induction k arbitrary: n s)
  case 0
  have ok: "apb_ok s 121" using "0.prems"(5) by (simp add: apb_ok_def)
  from attach_poll_halted[of s v n] "0.prems" ok
  show ?case by (simp add: delayed_polls_def)
next
  case (Suc k)
  from Suc.prems(7) obtain m where n: "n = Suc m" and m: "k < m" by (cases n) auto
  have c0: "\<not> srst_val s (srst_count s)" "not_halted (apb_resp s (apb_count s))"
    using Suc.prems(1)[rule_format, of 0] by auto
  let ?s' = "s\<lparr>apb_count := apb_count s + 1, srst_count := srst_count s + 1,
               trace := trace s @
                 [Srst_get, Apb_read (base s + 4 * ucast DBGDSCR), Delay 200]\<rparr>"
  have pre: "\<forall>j<k. \<not> srst_val ?s' (srst_count ?s' + j) \<and>
           not_halted (apb_resp ?s' (apb_count ?s' + j))"
  proof (intro allI impI)
    fix j assume "j < k"
    then have "Suc j < Suc k" by simp
    from Suc.prems(1)[rule_format, OF this]
    show "\<not> srst_val ?s' (srst_count ?s' + j) \<and> not_halted (apb_resp ?s' (apb_count ?s' + j))"
      by simp
  qed
  have at: "\<not> srst_val ?s' (srst_count ?s' + k)" using Suc.prems(2) by simp
  have rv: "apb_resp ?s' (apb_count ?s' + k) = Resp v" using Suc.prems(3) by simp
  have oks: "\<forall>i<121. \<exists>w. apb_resp ?s' (apb_count ?s' + k + i) = Resp w"
    using Suc.prems(5) by simp
  have len: "length (r (reg_cache ?s')) = 16" using Suc.prems(6) by simp
  have step: "attach_poll (Suc m) s = attach_poll m ?s'"
    using attach_poll_step[OF c0, of m] m by simp
  from Suc.IH[OF pre at rv Suc.prems(4) oks len m] obtain c tr where
    r: "attach_poll m ?s' =
     (Inr (m - k),
      ?s'\<lparr>reg_cache := c, apb_count := apb_count ?s' + k + 121,
        srst_count := srst_count ?s' + Suc k,
        trace := trace ?s' @ delayed_polls (base ?s') k @
          [Srst_get, Apb_read (base ?s' + 4 * ucast DBGDSCR),
           Apb_write (base ?s' + 4 * ucast DBGDSCR) (v OR DBGDSCR_ITREN)] @ tr\<rparr>)"
    and q: "\<forall>q\<in>set tr. \<not> platform_request q" by blast
  have "attach_poll n s =
     (Inr (n - Suc k),
      s\<lparr>reg_cache := c, apb_count := apb_count s + Suc k + 121,
        srst_count := srst_count s + Suc (Suc k),
        trace := trace s @ delayed_polls (base s) (Suc k) @
          [Srst_get, Apb_read (base s + 4 * ucast DBGDSCR),
           Apb_write (base s + 4 * ucast DBGDSCR) (v OR DBGDSCR_ITREN)] @ tr\<rparr>)"
    unfolding n step r by (simp add: delayed_polls_def)
  with q show ?case by blast
qed

subsection \<open>The steps before and after the polling loop\<close>

lemma check_error_state:
  "\<exists>dc. snd (target_check_error t) =
      t\<lparr>mmu_fault := False, dp_count := dc,
        trace := trace t @ (case ahb t of None \<Rightarrow> [] | Some a \<Rightarrow> [Dp_error])\<rparr>"
proof (cases "ahb t")
  case None
  have "snd (target_check_error t) =
      t\<lparr>mmu_fault := False, dp_count := dp_count t, trace := trace t @ []\<rparr>"
    by (simp add: target_check_error_def cortexa_check_error_def None)
  then show ?thesis unfolding None option.case by blast
next
  case (Some a)
  have "snd (target_check_error t) =
      t\<lparr>mmu_fault := False, dp_count := dp_count t + 1, trace := trace t @ [Dp_error]\<rparr>"
    by (simp add: target_check_error_def cortexa_check_error_def Some adiv5_dp_error_def
          log_req_def)
  then show ?thesis unfolding Some option.case by blast
qed

lemma halt_request_run:
  assumes "apb_resp s (apb_count s) \<noteq> Raise EXCEPTION_ERROR"
  shows "target_halt_request s =
      (Inr (), s\<lparr>apb_count := apb_count s + 1,
         trace := trace s @ [Apb_write (base s + 4 * ucast DBGDRCR) DBGDRCR_HRQ] @
           (if apb_resp s (apb_count s) = Raise EXCEPTION_TIMEOUT then [Gdb_out] else [])\<rparr>)"
proof (cases "apb_resp s (apb_count s)")
  case (Resp v)
  show ?thesis
    by (simp add: target_halt_request_def cortexa_halt_request_def bindE_apply try_catch_def
          apb_write_Resp[OF Resp] returnE_apply Resp)
next
  case (Raise e)
  with assms have e: "e = EXCEPTION_TIMEOUT" by (cases e) simp_all
  show ?thesis
    by (simp add: target_halt_request_def cortexa_halt_request_def bindE_apply try_catch_def
          apb_write_def Raise e modify_apply log_req_def Let_def)
qed

lemma attach_enable_run:
  assumes "attach_prelude_ok t"
  shows "\<exists>dc. attach_enable_halting t =
      (Inr (), t\<lparr>mmu_fault := False, dp_count := dc, apb_count := apb_count t + 3,
                trace := trace t @ attach_prelude_requests t\<rparr>)"
proof -
  from assms have ok: "apb_ok t 2" and ne: "apb_resp t (apb_count t + 2) \<noteq> Raise EXCEPTION_ERROR"
    by (simp_all add: attach_prelude_ok_def)
  let ?tr0 = "case ahb t of None \<Rightarrow> [] | Some a \<Rightarrow> [Dp_error]"
  obtain dc where ce: "snd (target_check_error t) =
      t\<lparr>mmu_fault := False, dp_count := dc, trace := trace t @ ?tr0\<rparr>"
    using check_error_state[of t] by blast
  define t0 where "t0 = t\<lparr>mmu_fault := False, dp_count := dc, trace := trace t @ ?tr0\<rparr>"
  obtain d where d0: "apb_resp t (apb_count t + 0) = Resp d"
    using apb_ok_at[OF ok, of 0] by auto
  then have d: "apb_resp t0 (apb_count t0) = Resp d" by (simp add: t0_def)
  have rv: "resp_val (apb_resp t (apb_count t)) = d" using d0 by simp
  obtain w where w: "apb_resp t0 (Suc (apb_count t0)) = Resp w"
    using apb_ok_at[OF ok, of 1] by (auto simp: t0_def)
  define x where "x = ((d OR (DBGDSCR_HDBGEN OR DBGDSCR_ITREN)) AND NOT DBGDSCR_EXTDCCMODE_MASK)
      OR DBGDSCR_EXTDCCMODE_STALL"
  define t2 where "t2 = t0\<lparr>apb_count := apb_count t0 + 2,
      trace := trace t0 @ [Apb_read (base t0 + 4 * ucast DBGDSCR),
                           Apb_write (base t0 + 4 * ucast DBGDSCR) x]\<rparr>"
  have ne2: "apb_resp t2 (apb_count t2) \<noteq> Raise EXCEPTION_ERROR"
    using ne by (simp add: t2_def t0_def)
  note hr = halt_request_run[OF ne2]
  have rw: "apb_read DBGDSCR t0 = (Inr d, t0\<lparr>apb_count := apb_count t0 + 1,
              trace := trace t0 @ [Apb_read (base t0 + 4 * ucast DBGDSCR)]\<rparr>)"
    by (rule apb_read_Resp[OF d])
  have ww: "apb_write DBGDSCR x (t0\<lparr>apb_count := apb_count t0 + 1,
              trace := trace t0 @ [Apb_read (base t0 + 4 * ucast DBGDSCR)]\<rparr>) = (Inr (), t2)"
    using w by (simp add: apb_write_Resp t2_def)
  have "attach_enable_halting t =
      (Inr (), t2\<lparr>apb_count := apb_count t2 + 1,
         trace := trace t2 @ [Apb_write (base t2 + 4 * ucast DBGDRCR) DBGDRCR_HRQ] @
           (if apb_resp t2 (apb_count t2) = Raise EXCEPTION_TIMEOUT then [Gdb_out] else [])\<rparr>)"
    unfolding attach_enable_halting_def
    by (simp only: thenE_apply bindE_apply ce t0_def[symmetric] prod.case sum.case rw Let_def
          x_def[symmetric] ww hr)
  moreover have "t2\<lparr>apb_count := apb_count t2 + 1,
         trace := trace t2 @ [Apb_write (base t2 + 4 * ucast DBGDRCR) DBGDRCR_HRQ] @
           (if apb_resp t2 (apb_count t2) = Raise EXCEPTION_TIMEOUT then [Gdb_out] else [])\<rparr> =
      t\<lparr>mmu_fault := False, dp_count := dc, apb_count := apb_count t + 3,
         trace := trace t @ attach_prelude_requests t\<rparr>"
    by (simp add: t2_def t0_def attach_prelude_requests_def rv x_def)
  ultimately show ?thesis by auto
qed

lemma clear_breakpoint_run_aux:
  assumes "apb_resp s (apb_count s) = Resp v"
  shows "clear_breakpoint i s =
    (Inr (), s\<lparr>hw_breakpoint := (hw_breakpoint s)[i := 0], apb_count := apb_count s + 1,
               trace := trace s @ [Apb_write (base s + 4 * ucast (DBGBCR i)) 0]\<rparr>)"
  by (simp add: clear_breakpoint_def thenE_apply modify_apply apb_write_Resp[OF assms])

lemma clear_breakpoint_Inr:
  assumes "clear_breakpoint i s = (Inr u, s')"
  shows "s' = s\<lparr>hw_breakpoint := (hw_breakpoint s)[i := 0], apb_count := apb_count s + 1,
               trace := trace s @ [Apb_write (base s + 4 * ucast (DBGBCR i)) 0]\<rparr>"
proof (cases "apb_resp s (apb_count s)")
  case (Resp v)
  from assms show ?thesis unfolding clear_breakpoint_run_aux[OF Resp] by simp
next
  case (Raise e)
  with assms show ?thesis
    by (simp add: clear_breakpoint_def thenE_apply modify_apply apb_write_def log_req_def Let_def)
qed

lemma clear_breakpoint_run:
  assumes "apb_resp s (apb_count s) = Resp v"
  shows "clear_breakpoint i s =
    (Inr (), s\<lparr>hw_breakpoint := (hw_breakpoint s)[i := 0], apb_count := apb_count s + 1,
               trace := trace s @ [Apb_write (base s + 4 * ucast (DBGBCR i)) 0]\<rparr>)"
  by (simp add: clear_breakpoint_def thenE_apply modify_apply apb_write_Resp[OF assms])

lemma clear_loop_done:
  "n - i = k \<Longrightarrow> for_loop i n clear_breakpoint s = (Inr (), s') \<Longrightarrow>
   n \<le> length (hw_breakpoint s) \<Longrightarrow>
   hw_breakpoint_max s' = hw_breakpoint_max s \<and> base s' = base s \<and>
   (\<forall>j. i \<le> j \<and> j < n \<longrightarrow> hw_breakpoint s' ! j = 0) \<and>
   (\<forall>j<i. hw_breakpoint s' ! j = hw_breakpoint s ! j) \<and>
   trace s' = trace s @ map (\<lambda>j. Apb_write (base s + 4 * ucast (DBGBCR j)) 0) [i..<n]"
proof (induction k arbitrary: i s)
  case 0
  then have "\<not> i < n" by simp
  with 0 show ?case by (auto simp: for_loop.simps)
next
  case (Suc k)
  then have lt: "i < n" by simp
  obtain res s1 where b: "clear_breakpoint i s = (res, s1)" by (cases "clear_breakpoint i s")
  have unf: "for_loop i n clear_breakpoint s =
      (case res of Inl e \<Rightarrow> (Inl e, s1) | Inr u \<Rightarrow> for_loop (i + 1) n clear_breakpoint s1)"
    using lt b by (subst for_loop.simps) simp
  from Suc.prems(2) unf obtain u where res: "res = Inr u"
    and rest: "for_loop (i + 1) n clear_breakpoint s1 = (Inr (), s')"
    by (cases res) auto
  have s1: "s1 = s\<lparr>hw_breakpoint := (hw_breakpoint s)[i := 0], apb_count := apb_count s + 1,
               trace := trace s @ [Apb_write (base s + 4 * ucast (DBGBCR i)) 0]\<rparr>"
    using clear_breakpoint_Inr b res by blast
  have len1: "n \<le> length (hw_breakpoint s1)" using Suc.prems(3) by (simp add: s1)
  have k: "n - (i + 1) = k" using Suc.prems(1) by simp
  note IH = Suc.IH[OF k rest len1]
  have ilen: "i < length (hw_breakpoint s)" using lt Suc.prems(3) by simp
  have z: "hw_breakpoint s' ! i = 0"
    using IH ilen by (simp add: s1)
  show ?case
  proof (intro conjI allI impI)
    show "hw_breakpoint_max s' = hw_breakpoint_max s" using IH by (simp add: s1)
    show "base s' = base s" using IH by (simp add: s1)
    show "hw_breakpoint s' ! j = 0" if "i \<le> j \<and> j < n" for j
      using that IH z by (cases "j = i") auto
    show "hw_breakpoint s' ! j = hw_breakpoint s ! j" if "j < i" for j
      using that IH by (simp add: s1)
    show "trace s' = trace s @ map (\<lambda>j. Apb_write (base s + 4 * ucast (DBGBCR j)) 0) [i..<n]"
      using IH lt by (simp add: s1 upt_conv_Cons)
  qed
qed

lemma clear_loop_run:
  "n - i = k \<Longrightarrow> apb_ok s k \<Longrightarrow> \<exists>s'. for_loop i n clear_breakpoint s = (Inr (), s')"
proof (induction k arbitrary: i s)
  case 0
  then show ?case by (simp add: for_loop.simps)
next
  case (Suc k)
  then have lt: "i < n" and k: "n - (i + 1) = k" by simp_all
  obtain v where v: "apb_resp s (apb_count s) = Resp v"
    using apb_ok_at[OF Suc.prems(2), of 0] by auto
  let ?s1 = "s\<lparr>hw_breakpoint := (hw_breakpoint s)[i := 0], apb_count := apb_count s + 1,
               trace := trace s @ [Apb_write (base s + 4 * ucast (DBGBCR i)) 0]\<rparr>"
  have ok1: "apb_ok ?s1 k"
    by (rule apb_ok_later[OF Suc.prems(2), of 1]) simp_all
  from Suc.IH[OF k ok1] obtain s' where "for_loop (i + 1) n clear_breakpoint ?s1 = (Inr (), s')"
    by blast
  then have "for_loop i n clear_breakpoint s = (Inr (), s')"
    using lt by (subst for_loop.simps) (simp add: clear_breakpoint_run[OF v])
  then show ?case by blast
qed

lemma attach_clear_done:
  assumes "attach_clear_breakpoints s = (Inr b, t')"
    and "hw_breakpoint_max s \<le> length (hw_breakpoint s)"
  shows "b = True \<and> hw_breakpoint_max t' = hw_breakpoint_max s \<and> base t' = base s \<and>
     (\<forall>j<hw_breakpoint_max s. hw_breakpoint t' ! j = 0) \<and>
     trace t' = trace s @ zero_bcr_writes (base s) (hw_breakpoint_max s) @ [Srst_set False]"
proof -
  from assms(1) obtain u s1 where
    lp: "for_loop 0 (hw_breakpoint_max s) clear_breakpoint s = (Inr u, s1)"
    and r: "thenE (platform_srst_set_val False) (returnE True) s1 = (Inr b, t')"
    unfolding attach_clear_breakpoints_def by (rule thenE_InrE)
  from r have b: "b = True" and t': "t' = log_req (Srst_set False) s1"
    by (simp_all add: thenE_apply platform_srst_set_val_def modify_apply returnE_apply)
  from clear_loop_done[OF refl _ assms(2), of 0 s1] lp
  have "hw_breakpoint_max s1 = hw_breakpoint_max s \<and> base s1 = base s \<and>
   (\<forall>j. 0 \<le> j \<and> j < hw_breakpoint_max s \<longrightarrow> hw_breakpoint s1 ! j = 0) \<and>
   trace s1 = trace s @ map (\<lambda>j. Apb_write (base s + 4 * ucast (DBGBCR j)) 0)
      [0..<hw_breakpoint_max s]"
    by simp
  then show ?thesis
    by (simp add: b t' log_req_def zero_bcr_writes_def)
qed

lemma attach_clear_run:
  assumes "apb_ok s (hw_breakpoint_max s)"
  shows "\<exists>t'. attach_clear_breakpoints s = (Inr True, t')"
proof -
  from clear_loop_run[OF _ assms, of "hw_breakpoint_max s" 0]
  obtain s1 where "for_loop 0 (hw_breakpoint_max s) clear_breakpoint s = (Inr (), s1)" by auto
  then show ?thesis
    by (simp add: attach_clear_breakpoints_def thenE_apply platform_srst_set_val_def
          modify_apply returnE_apply)
qed

lemma attach_unfold:
  assumes "attach_enable_halting t = (Inr (), s3)"
  shows "cortexa_attach t =
    (case attach_poll 10 s3 of
       (Inl e, s4) \<Rightarrow> (Inl e, s4)
     | (Inr tries, s4) \<Rightarrow>
         if tries = 0 then (Inr False, s4) else attach_clear_breakpoints s4)"
  unfolding cortexa_attach_def
  by (simp add: thenE_apply bindE_apply assms returnE_apply split: prod.splits sum.splits)

lemma prelude_no_platform:
  "\<forall>q\<in>set (attach_prelude_requests t). \<not> platform_request q"
  by (auto simp: attach_prelude_requests_def split: option.splits)

lemma attach_grows:
  assumes "attach_prelude_ok t"
  shows "\<exists>rest. new_requests t (snd (cortexa_attach t)) = attach_prelude_requests t @ rest"
proof -
  from attach_enable_run[OF assms] obtain dc where
    en: "attach_enable_halting t =
      (Inr (), t\<lparr>mmu_fault := False, dp_count := dc, apb_count := apb_count t + 3,
                trace := trace t @ attach_prelude_requests t\<rparr>)" by blast
  define s3 where "s3 = t\<lparr>mmu_fault := False, dp_count := dc, apb_count := apb_count t + 3,
                trace := trace t @ attach_prelude_requests t\<rparr>"
  note unf = attach_unfold[OF en[folded s3_def]]
  obtain res s4 where p: "attach_poll 10 s3 = (res, s4)" by (cases "attach_poll 10 s3")
  from attach_poll_grows[of 10 s3] p obtain tr1 where
    t4: "trace s4 = trace t @ attach_prelude_requests t @ tr1" by (auto simp: s3_def)
  from attach_clear_grows[of s4] obtain tr2 where
    t5: "trace (snd (attach_clear_breakpoints s4)) =
         trace t @ attach_prelude_requests t @ tr1 @ tr2" by (auto simp: t4)
  have "snd (cortexa_attach t) = s4 \<or> snd (cortexa_attach t) = snd (attach_clear_breakpoints s4)"
    unfolding unf p by (cases res) auto
  then show ?thesis
  proof
    assume "snd (cortexa_attach t) = s4"
    then show ?thesis by (simp add: new_requests_def t4)
  next
    assume "snd (cortexa_attach t) = snd (attach_clear_breakpoints s4)"
    then show ?thesis by (simp add: new_requests_def t5)
  qed
qed

lemma attach_srst_run:
  assumes ok: "target_ok t" and pre: "attach_prelude_ok t" and k: "k < 10"
    and before: "\<forall>j<k. \<not> srst_val t (srst_count t + j) \<and>
                   not_halted (apb_resp t (apb_count t + 3 + j))"
    and srst: "srst_val t (srst_count t + k)"
    and wr: "\<forall>i<hw_breakpoint_max t. \<exists>v. apb_resp t (apb_count t + 3 + k + i) = Resp v"
  shows "fst (cortexa_attach t) = Inr True \<and>
    new_requests t (snd (cortexa_attach t)) =
      attach_prelude_requests t @ delayed_polls (base t) k @ [Srst_get] @
      zero_bcr_writes (base t) (hw_breakpoint_max t) @ [Srst_set False]"
proof -
  from attach_enable_run[OF pre] obtain dc where
    en: "attach_enable_halting t =
      (Inr (), t\<lparr>mmu_fault := False, dp_count := dc, apb_count := apb_count t + 3,
                trace := trace t @ attach_prelude_requests t\<rparr>)" by blast
  define s3 where "s3 = t\<lparr>mmu_fault := False, dp_count := dc, apb_count := apb_count t + 3,
                trace := trace t @ attach_prelude_requests t\<rparr>"
  have b3: "\<forall>j<k. \<not> srst_val s3 (srst_count s3 + j) \<and> not_halted (apb_resp s3 (apb_count s3 + j))"
    using before by (simp add: s3_def)
  have a3: "srst_val s3 (srst_count s3 + k)" using srst by (simp add: s3_def)
  note poll = attach_poll_srst_at[OF b3 a3 k]
  define s4 where "s4 = s3\<lparr>apb_count := apb_count s3 + k, srst_count := srst_count s3 + Suc k,
        trace := trace s3 @ delayed_polls (base s3) k @ [Srst_get]\<rparr>"
  have ok4: "apb_ok s4 (hw_breakpoint_max s4)"
    unfolding apb_ok_def using wr by (simp add: s4_def s3_def add.assoc)
  from attach_clear_run[OF ok4] obtain t' where cl: "attach_clear_breakpoints s4 = (Inr True, t')"
    by blast
  have bound: "hw_breakpoint_max s4 \<le> length (hw_breakpoint s4)"
    using ok by (simp add: target_ok_def s4_def s3_def)
  from attach_clear_done[OF cl bound]
  have tr: "trace t' = trace s4 @ zero_bcr_writes (base s4) (hw_breakpoint_max s4) @ [Srst_set False]"
    by simp
  have nz: "10 - k \<noteq> 0" using k by simp
  have res: "cortexa_attach t = (Inr True, t')"
    unfolding attach_unfold[OF en[folded s3_def]] poll[folded s4_def]
    using nz cl by simp
  have "new_requests t t' =
      attach_prelude_requests t @ delayed_polls (base t) k @ [Srst_get] @
      zero_bcr_writes (base t) (hw_breakpoint_max t) @ [Srst_set False]"
    by (simp add: new_requests_def tr s4_def s3_def)
  then show ?thesis by (simp add: res)
qed

lemma attach_halted_run:
  assumes ok: "target_ok t" and pre: "attach_prelude_ok t" and k: "k < 10"
    and before: "\<forall>j<k. \<not> srst_val t (srst_count t + j) \<and>
                   not_halted (apb_resp t (apb_count t + 3 + j))"
    and ns: "\<not> srst_val t (srst_count t + k)"
    and nh: "\<not> not_halted (apb_resp t (apb_count t + 3 + k))"
    and tx: "\<forall>i<121 + hw_breakpoint_max t. \<exists>v. apb_resp t (apb_count t + 3 + k + i) = Resp v"
  shows "fst (cortexa_attach t) = Inr True \<and>
    (\<exists>mid. new_requests t (snd (cortexa_attach t)) =
        attach_prelude_requests t @ delayed_polls (base t) k @
        [Srst_get, Apb_read (base t + 4 * ucast DBGDSCR)] @ mid @
        zero_bcr_writes (base t) (hw_breakpoint_max t) @ [Srst_set False] \<and>
      (\<forall>q\<in>set mid. \<not> platform_request q))"
proof -
  from attach_enable_run[OF pre] obtain dc where
    en: "attach_enable_halting t =
      (Inr (), t\<lparr>mmu_fault := False, dp_count := dc, apb_count := apb_count t + 3,
                trace := trace t @ attach_prelude_requests t\<rparr>)" by blast
  define s3 where "s3 = t\<lparr>mmu_fault := False, dp_count := dc, apb_count := apb_count t + 3,
                trace := trace t @ attach_prelude_requests t\<rparr>"
  from tx[rule_format, of 0] obtain v where v: "apb_resp t (apb_count t + 3 + k) = Resp v"
    by auto
  have h: "v AND DBGDSCR_HALTED \<noteq> 0" using nh v by (simp add: not_halted_def)
  have b3: "\<forall>j<k. \<not> srst_val s3 (srst_count s3 + j) \<and> not_halted (apb_resp s3 (apb_count s3 + j))"
    using before by (simp add: s3_def)
  have n3: "\<not> srst_val s3 (srst_count s3 + k)" using ns by (simp add: s3_def)
  have v3: "apb_resp s3 (apb_count s3 + k) = Resp v" using v by (simp add: s3_def)
  have t3: "\<forall>i<121. \<exists>w. apb_resp s3 (apb_count s3 + k + i) = Resp w"
    using tx by (simp add: s3_def)
  have l3: "length (r (reg_cache s3)) = 16" using ok by (simp add: target_ok_def s3_def)
  from attach_poll_halted_at[OF b3 n3 v3 h t3 l3 k] obtain c tr where
    poll: "attach_poll 10 s3 =
     (Inr (10 - k),
      s3\<lparr>reg_cache := c, apb_count := apb_count s3 + k + 121,
        srst_count := srst_count s3 + Suc k,
        trace := trace s3 @ delayed_polls (base s3) k @
          [Srst_get, Apb_read (base s3 + 4 * ucast DBGDSCR),
           Apb_write (base s3 + 4 * ucast DBGDSCR) (v OR DBGDSCR_ITREN)] @ tr\<rparr>)"
    and q: "\<forall>q\<in>set tr. \<not> platform_request q" by blast
  define s4 where "s4 = s3\<lparr>reg_cache := c, apb_count := apb_count s3 + k + 121,
        srst_count := srst_count s3 + Suc k,
        trace := trace s3 @ delayed_polls (base s3) k @
          [Srst_get, Apb_read (base s3 + 4 * ucast DBGDSCR),
           Apb_write (base s3 + 4 * ucast DBGDSCR) (v OR DBGDSCR_ITREN)] @ tr\<rparr>"
  have ok4: "apb_ok s4 (hw_breakpoint_max s4)"
    unfolding apb_ok_def
  proof (intro allI impI)
    fix j assume "j < hw_breakpoint_max s4"
    then have "121 + j < 121 + hw_breakpoint_max t" by (simp add: s4_def s3_def)
    from tx[rule_format, OF this] obtain x where
      "apb_resp t (apb_count t + 3 + k + (121 + j)) = Resp x" by blast
    then show "\<exists>x. apb_resp s4 (apb_count s4 + j) = Resp x"
      by (simp add: s4_def s3_def add.assoc)
  qed
  from attach_clear_run[OF ok4] obtain t' where cl: "attach_clear_breakpoints s4 = (Inr True, t')"
    by blast
  have bound: "hw_breakpoint_max s4 \<le> length (hw_breakpoint s4)"
    using ok by (simp add: target_ok_def s4_def s3_def)
  from attach_clear_done[OF cl bound]
  have tr: "trace t' = trace s4 @ zero_bcr_writes (base s4) (hw_breakpoint_max s4) @ [Srst_set False]"
    by simp
  have nz: "10 - k \<noteq> 0" using k by simp
  have res: "cortexa_attach t = (Inr True, t')"
    unfolding attach_unfold[OF en[folded s3_def]] poll[folded s4_def]
    using nz cl by simp
  let ?mid = "Apb_write (base t + 4 * ucast DBGDSCR) (v OR DBGDSCR_ITREN) # tr"
  have "new_requests t t' =
      attach_prelude_requests t @ delayed_polls (base t) k @
      [Srst_get, Apb_read (base t + 4 * ucast DBGDSCR)] @ ?mid @
      zero_bcr_writes (base t) (hw_breakpoint_max t) @ [Srst_set False]"
    by (simp add: new_requests_def tr s4_def s3_def)
  moreover have "\<forall>q\<in>set ?mid. \<not> platform_request q" using q by simp
  ultimately have "\<exists>mid. new_requests t t' =
        attach_prelude_requests t @ delayed_polls (base t) k @
        [Srst_get, Apb_read (base t + 4 * ucast DBGDSCR)] @ mid @
        zero_bcr_writes (base t) (hw_breakpoint_max t) @ [Srst_set False] \<and>
      (\<forall>q\<in>set mid. \<not> platform_request q)" by blast
  then show ?thesis by (simp add: res)
qed

lemma failed_polls_no_set: "Srst_set b \<notin> set (failed_polls a n)"
  by (auto simp: failed_polls_def)

text \<open>
  Claim C1, with the failure condition as the loop of \<open>cortexa_attach\<close> has it. Let the
  first three transactions of the attach go through: the read and the write of DBGDSCR
  complete and the halt request does not end in an error. Then, however the routine ends,
  its requests start with the read of DBGDSCR, the write that enables halting debug mode,
  and the halt request, the write of HRQ to DBGDRCR. The routine then polls at most ten
  times, with a delay of 200 ms between two polls: each poll reads the system reset line
  and, only when it is deasserted, the halt status. It returns false exactly when in each
  of the ten polls the reset line is read deasserted and the target is found not halted;
  then the breakpoint table is as before, system reset is not driven, and the requests
  are the ones up to the halt request followed by the ten polls with the nine delays
  between them. When a poll reads the reset line asserted, polling stops there and the
  routine goes on to the success path without waiting for the halt: if the writes to the
  breakpoint control registers go through, it returns true. When a poll with the reset
  line deasserted finds the core halted, and the transport completes the register
  snapshot of the halt and the writes to the breakpoint control registers, polling stops
  there as well and the routine returns true. In both cases the last requests are one
  write of zero to each DBGBCR followed by the deassertion of system reset. Whenever the
  routine returns true, every entry of the breakpoint table is zero, and the last requests
  are those writes and the deassertion.
\<close>

theorem attach_correct:
  assumes "target_ok t" and "attach_prelude_ok t"
  shows
  "(\<exists>rest. new_requests t (snd (cortexa_attach t)) = attach_prelude_requests t @ rest) \<and>
   (fst (cortexa_attach t) = Inr False \<longleftrightarrow>
      (\<forall>j<10. \<not> srst_val t (srst_count t + j) \<and>
               not_halted (apb_resp t (apb_count t + 3 + j)))) \<and>
   ((\<forall>j<10. \<not> srst_val t (srst_count t + j) \<and>
            not_halted (apb_resp t (apb_count t + 3 + j))) \<longrightarrow>
      hw_breakpoint (snd (cortexa_attach t)) = hw_breakpoint t \<and>
      (\<forall>b. Srst_set b \<notin> set (new_requests t (snd (cortexa_attach t)))) \<and>
      new_requests t (snd (cortexa_attach t)) =
        attach_prelude_requests t @ failed_polls (base t) 10) \<and>
   (\<forall>k<10. (\<forall>j<k. \<not> srst_val t (srst_count t + j) \<and>
                   not_halted (apb_resp t (apb_count t + 3 + j))) \<and>
            srst_val t (srst_count t + k) \<and>
            (\<forall>i<hw_breakpoint_max t. \<exists>v. apb_resp t (apb_count t + 3 + k + i) = Resp v) \<longrightarrow>
      fst (cortexa_attach t) = Inr True \<and>
      new_requests t (snd (cortexa_attach t)) =
        attach_prelude_requests t @ delayed_polls (base t) k @ [Srst_get] @
        zero_bcr_writes (base t) (hw_breakpoint_max t) @ [Srst_set False]) \<and>
   (\<forall>k<10. (\<forall>j<k. \<not> srst_val t (srst_count t + j) \<and>
                   not_halted (apb_resp t (apb_count t + 3 + j))) \<and>
            \<not> srst_val t (srst_count t + k) \<and>
            \<not> not_halted (apb_resp t (apb_count t + 3 + k)) \<and>
            (\<forall>i<121 + hw_breakpoint_max t.
                \<exists>v. apb_resp t (apb_count t + 3 + k + i) = Resp v) \<longrightarrow>
      fst (cortexa_attach t) = Inr True \<and>
      (\<exists>mid. new_requests t (snd (cortexa_attach t)) =
          attach_prelude_requests t @ delayed_polls (base t) k @
          [Srst_get, Apb_read (base t + 4 * ucast DBGDSCR)] @ mid @
          zero_bcr_writes (base t) (hw_breakpoint_max t) @ [Srst_set False] \<and>
        (\<forall>q\<in>set mid. \<not> platform_request q))) \<and>
   (\<forall>t'. cortexa_attach t = (Inr True, t') \<longrightarrow>
      hw_breakpoint_max t' = hw_breakpoint_max t \<and>
      (\<forall>i<hw_breakpoint_max t'. hw_breakpoint t' ! i = 0) \<and>
      (\<exists>pre. trace t' =
         pre @ zero_bcr_writes (base t) (hw_breakpoint_max t) @ [Srst_set False]))"
proof -
  let ?C = "\<forall>j<10. \<not> srst_val t (srst_count t + j) \<and>
               not_halted (apb_resp t (apb_count t + 3 + j))"
  from attach_enable_run[OF assms(2)] obtain dc where
    en: "attach_enable_halting t =
      (Inr (), t\<lparr>mmu_fault := False, dp_count := dc, apb_count := apb_count t + 3,
                trace := trace t @ attach_prelude_requests t\<rparr>)" by blast
  define s3 where "s3 = t\<lparr>mmu_fault := False, dp_count := dc, apb_count := apb_count t + 3,
                trace := trace t @ attach_prelude_requests t\<rparr>"
  note unf = attach_unfold[OF en[folded s3_def]]
  have C3: "?C \<longleftrightarrow> (\<forall>j<Suc 9. \<not> srst_val s3 (srst_count s3 + j) \<and>
                        not_halted (apb_resp s3 (apb_count s3 + j)))"
    by (simp add: s3_def add.assoc)
  have P3: "hw_breakpoint s3 = hw_breakpoint t \<and> hw_breakpoint_max s3 = hw_breakpoint_max t \<and>
            base s3 = base t" by (simp add: s3_def)
  have P4: "hw_breakpoint (snd (attach_poll 10 s3)) = hw_breakpoint t \<and>
            hw_breakpoint_max (snd (attach_poll 10 s3)) = hw_breakpoint_max t \<and>
            base (snd (attach_poll 10 s3)) = base t"
    using preservesD[OF preserves_attach_poll_bp[of "hw_breakpoint t" "hw_breakpoint_max t" "base t" 10],
        of s3] P3 by simp
  have bound: "hw_breakpoint_max t \<le> length (hw_breakpoint t)"
    using assms(1) by (simp add: target_ok_def)
  have fail: "cortexa_attach t =
      (Inr False, s3\<lparr>apb_count := apb_count s3 + Suc 9, srst_count := srst_count s3 + Suc 9,
              trace := trace s3 @ failed_polls (base s3) (Suc 9)\<rparr>)" if c: ?C
  proof -
    from c have "\<forall>j<Suc 9. \<not> srst_val s3 (srst_count s3 + j) \<and>
                        not_halted (apb_resp s3 (apb_count s3 + j))" using C3 by blast
    from attach_poll_fail_run[OF this] show ?thesis by (simp add: unf)
  qed
  have clear: "b = True \<and> hw_breakpoint_max t' = hw_breakpoint_max t \<and>
       (\<forall>j<hw_breakpoint_max t. hw_breakpoint t' ! j = 0) \<and>
       trace t' = trace s4 @ zero_bcr_writes (base t) (hw_breakpoint_max t) @ [Srst_set False]"
    if p: "attach_poll 10 s3 = (Inr tries, s4)" and c: "attach_clear_breakpoints s4 = (Inr b, t')"
    for tries s4 b t'
  proof -
    have P: "hw_breakpoint s4 = hw_breakpoint t" "hw_breakpoint_max s4 = hw_breakpoint_max t"
      "base s4 = base t" using P4 p by simp_all
    have "hw_breakpoint_max s4 \<le> length (hw_breakpoint s4)" using bound P by simp
    from attach_clear_done[OF c this] show ?thesis by (simp add: P)
  qed
  have part0: "\<exists>rest. new_requests t (snd (cortexa_attach t)) = attach_prelude_requests t @ rest"
    by (rule attach_grows[OF assms(2)])
  have part1: "fst (cortexa_attach t) = Inr False \<longleftrightarrow> ?C"
  proof
    assume f: "fst (cortexa_attach t) = Inr False"
    obtain res s4 where p: "attach_poll 10 s3 = (res, s4)" by (cases "attach_poll 10 s3")
    show ?C
    proof (cases res)
      case (Inl e)
      with f p show ?thesis by (simp add: unf)
    next
      case (Inr tries)
      show ?thesis
      proof (cases "tries = 0")
        case True
        then have "fst (attach_poll (Suc 9) s3) = Inr 0" using p Inr by simp
        from attach_poll_zero_only[OF this] show ?thesis using C3 by blast
      next
        case False
        obtain r2 t2 where c: "attach_clear_breakpoints s4 = (r2, t2)"
          by (cases "attach_clear_breakpoints s4")
        from f have "r2 = Inr False" using p Inr False c by (simp add: unf)
        with clear[OF p[unfolded Inr]] c show ?thesis by blast
      qed
    qed
  next
    assume ?C
    from fail[OF this] show "fst (cortexa_attach t) = Inr False" by simp
  qed
  have part2: "?C \<longrightarrow>
      hw_breakpoint (snd (cortexa_attach t)) = hw_breakpoint t \<and>
      (\<forall>b. Srst_set b \<notin> set (new_requests t (snd (cortexa_attach t)))) \<and>
      new_requests t (snd (cortexa_attach t)) =
        attach_prelude_requests t @ failed_polls (base t) 10"
  proof
    assume c: ?C
    have hb: "hw_breakpoint (snd (cortexa_attach t)) = hw_breakpoint t"
      by (simp add: fail[OF c] s3_def)
    have nr: "new_requests t (snd (cortexa_attach t)) =
        attach_prelude_requests t @ failed_polls (base t) 10"
      by (simp add: fail[OF c] s3_def new_requests_def)
    have ns: "\<forall>b. Srst_set b \<notin> set (new_requests t (snd (cortexa_attach t)))"
    proof
      fix b
      have "Srst_set b \<notin> set (attach_prelude_requests t)"
        using prelude_no_platform[of t] by auto
      then show "Srst_set b \<notin> set (new_requests t (snd (cortexa_attach t)))"
        using failed_polls_no_set[of b "base t" 10] unfolding nr by simp
    qed
    show "hw_breakpoint (snd (cortexa_attach t)) = hw_breakpoint t \<and>
      (\<forall>b. Srst_set b \<notin> set (new_requests t (snd (cortexa_attach t)))) \<and>
      new_requests t (snd (cortexa_attach t)) =
        attach_prelude_requests t @ failed_polls (base t) 10"
      using hb ns nr by blast
  qed
  have part3: "\<forall>k<10. (\<forall>j<k. \<not> srst_val t (srst_count t + j) \<and>
                   not_halted (apb_resp t (apb_count t + 3 + j))) \<and>
            srst_val t (srst_count t + k) \<and>
            (\<forall>i<hw_breakpoint_max t. \<exists>v. apb_resp t (apb_count t + 3 + k + i) = Resp v) \<longrightarrow>
      fst (cortexa_attach t) = Inr True \<and>
      new_requests t (snd (cortexa_attach t)) =
        attach_prelude_requests t @ delayed_polls (base t) k @ [Srst_get] @
        zero_bcr_writes (base t) (hw_breakpoint_max t) @ [Srst_set False]"
    using attach_srst_run[OF assms] by blast
  have part4: "\<forall>k<10. (\<forall>j<k. \<not> srst_val t (srst_count t + j) \<and>
                   not_halted (apb_resp t (apb_count t + 3 + j))) \<and>
            \<not> srst_val t (srst_count t + k) \<and>
            \<not> not_halted (apb_resp t (apb_count t + 3 + k)) \<and>
            (\<forall>i<121 + hw_breakpoint_max t.
                \<exists>v. apb_resp t (apb_count t + 3 + k + i) = Resp v) \<longrightarrow>
      fst (cortexa_attach t) = Inr True \<and>
      (\<exists>mid. new_requests t (snd (cortexa_attach t)) =
          attach_prelude_requests t @ delayed_polls (base t) k @
          [Srst_get, Apb_read (base t + 4 * ucast DBGDSCR)] @ mid @
          zero_bcr_writes (base t) (hw_breakpoint_max t) @ [Srst_set False] \<and>
        (\<forall>q\<in>set mid. \<not> platform_request q))"
    using attach_halted_run[OF assms] by blast
  have part5: "\<forall>t'. cortexa_attach t = (Inr True, t') \<longrightarrow>
      hw_breakpoint_max t' = hw_breakpoint_max t \<and>
      (\<forall>i<hw_breakpoint_max t'. hw_breakpoint t' ! i = 0) \<and>
      (\<exists>pre. trace t' =
         pre @ zero_bcr_writes (base t) (hw_breakpoint_max t) @ [Srst_set False])"
  proof (intro allI impI)
    fix t' assume a: "cortexa_attach t = (Inr True, t')"
    obtain res s4 where p: "attach_poll 10 s3 = (res, s4)" by (cases "attach_poll 10 s3")
    from a p obtain tries where res: "res = Inr tries" and nz: "tries \<noteq> 0"
      and c: "attach_clear_breakpoints s4 = (Inr True, t')"
      by (cases res) (auto simp: unf split: if_splits)
    note cl = clear[OF p[unfolded res] c]
    have "\<exists>pre. trace t' = pre @ zero_bcr_writes (base t) (hw_breakpoint_max t) @ [Srst_set False]"
      using cl by blast
    then show "hw_breakpoint_max t' = hw_breakpoint_max t \<and>
      (\<forall>i<hw_breakpoint_max t'. hw_breakpoint t' ! i = 0) \<and>
      (\<exists>pre. trace t' =
         pre @ zero_bcr_writes (base t) (hw_breakpoint_max t) @ [Srst_set False])"
      using cl by simp
  qed
  show ?thesis
    by (intro conjI) (rule part0, rule part1, rule part2, rule part3, rule part4, rule part5)
qed

text \<open>
  Claim C1 as worded has \<open>cortexa_attach\<close> return false when the system reset line remains
  asserted or the target never halts. With the reset line asserted at every reading and a
  target that never reports the halt, the first poll leaves the loop with tries left, and
  the routine returns true.
\<close>

theorem attach_srst_asserted_counterexample:
  "(\<forall>n. srst_val ((probed_target 2 (\<lambda>_. Resp 0))\<lparr>srst_val := (\<lambda>_. True)\<rparr>) n) \<and>
   (\<forall>n. not_halted (apb_resp ((probed_target 2 (\<lambda>_. Resp 0))\<lparr>srst_val := (\<lambda>_. True)\<rparr>) n)) \<and>
   fst (cortexa_attach ((probed_target 2 (\<lambda>_. Resp 0))\<lparr>srst_val := (\<lambda>_. True)\<rparr>)) = Inr True"
proof -
  let ?t = "(probed_target 2 (\<lambda>_. Resp 0))\<lparr>srst_val := (\<lambda>_. True)\<rparr>"
  have ok: "target_ok ?t" by (simp add: target_ok_def probed_target_def)
  have pre: "attach_prelude_ok ?t"
    by (simp add: attach_prelude_ok_def apb_ok_def probed_target_def)
  have s: "srst_val ?t (srst_count ?t + 0)" by simp
  have w: "\<forall>i<hw_breakpoint_max ?t. \<exists>v. apb_resp ?t (apb_count ?t + 3 + 0 + i) = Resp v"
    by (simp add: probed_target_def)
  have "fst (cortexa_attach ?t) = Inr True \<and>
    new_requests ?t (snd (cortexa_attach ?t)) =
      attach_prelude_requests ?t @ delayed_polls (base ?t) 0 @ [Srst_get] @
      zero_bcr_writes (base ?t) (hw_breakpoint_max ?t) @ [Srst_set False]"
    by (rule attach_srst_run[OF ok pre _ _ s w]) simp_all
  moreover have "\<forall>n. not_halted (apb_resp ?t n)"
    by (simp add: not_halted_def probed_target_def)
  ultimately show ?thesis by simp
qed

text \<open>
  The attach theorem at three targets with two comparators and a stale breakpoint table:
  one that never halts with the reset line deasserted, one whose reset line is asserted
  from the fourth poll on, and one that reports the halt at the third poll.
\<close>

theorem attach_correct_witness:
  "target_ok ((probed_target 2 (\<lambda>_. Resp 0))
      \<lparr>hw_breakpoint := 0x1001 # 0x2001 # replicate 14 0\<rparr>) \<and>
   attach_prelude_ok ((probed_target 2 (\<lambda>_. Resp 0))
      \<lparr>hw_breakpoint := 0x1001 # 0x2001 # replicate 14 0\<rparr>) \<and>
   fst (cortexa_attach ((probed_target 2 (\<lambda>_. Resp 0))
      \<lparr>hw_breakpoint := 0x1001 # 0x2001 # replicate 14 0\<rparr>)) = Inr False \<and>
   hw_breakpoint (snd (cortexa_attach ((probed_target 2 (\<lambda>_. Resp 0))
      \<lparr>hw_breakpoint := 0x1001 # 0x2001 # replicate 14 0\<rparr>))) =
     0x1001 # 0x2001 # replicate 14 0 \<and>
   new_requests ((probed_target 2 (\<lambda>_. Resp 0))
        \<lparr>hw_breakpoint := 0x1001 # 0x2001 # replicate 14 0\<rparr>)
     (snd (cortexa_attach ((probed_target 2 (\<lambda>_. Resp 0))
        \<lparr>hw_breakpoint := 0x1001 # 0x2001 # replicate 14 0\<rparr>))) =
     [Apb_read 0x80090088, Apb_write 0x80090088 0x106000, Apb_write 0x80090090 1] @
     failed_polls 0x80090000 10 \<and>
   target_ok ((probed_target 2 (\<lambda>_. Resp 0))
      \<lparr>hw_breakpoint := 0x1001 # 0x2001 # replicate 14 0, srst_val := (\<lambda>n. 3 \<le> n)\<rparr>) \<and>
   attach_prelude_ok ((probed_target 2 (\<lambda>_. Resp 0))
      \<lparr>hw_breakpoint := 0x1001 # 0x2001 # replicate 14 0, srst_val := (\<lambda>n. 3 \<le> n)\<rparr>) \<and>
   fst (cortexa_attach ((probed_target 2 (\<lambda>_. Resp 0))
      \<lparr>hw_breakpoint := 0x1001 # 0x2001 # replicate 14 0, srst_val := (\<lambda>n. 3 \<le> n)\<rparr>)) =
     Inr True \<and>
   hw_breakpoint (snd (cortexa_attach ((probed_target 2 (\<lambda>_. Resp 0))
      \<lparr>hw_breakpoint := 0x1001 # 0x2001 # replicate 14 0, srst_val := (\<lambda>n. 3 \<le> n)\<rparr>))) ! 0 =
     0 \<and>
   hw_breakpoint (snd (cortexa_attach ((probed_target 2 (\<lambda>_. Resp 0))
      \<lparr>hw_breakpoint := 0x1001 # 0x2001 # replicate 14 0, srst_val := (\<lambda>n. 3 \<le> n)\<rparr>))) ! 1 =
     0 \<and>
   target_ok ((probed_target 2 (\<lambda>n. if n = 5 then Resp 1 else Resp 0))
      \<lparr>hw_breakpoint := 0x1001 # 0x2001 # replicate 14 0\<rparr>) \<and>
   attach_prelude_ok ((probed_target 2 (\<lambda>n. if n = 5 then Resp 1 else Resp 0))
      \<lparr>hw_breakpoint := 0x1001 # 0x2001 # replicate 14 0\<rparr>) \<and>
   \<not> not_halted (apb_resp ((probed_target 2 (\<lambda>n. if n = 5 then Resp 1 else Resp 0))
      \<lparr>hw_breakpoint := 0x1001 # 0x2001 # replicate 14 0\<rparr>) 5) \<and>
   fst (cortexa_attach ((probed_target 2 (\<lambda>n. if n = 5 then Resp 1 else Resp 0))
      \<lparr>hw_breakpoint := 0x1001 # 0x2001 # replicate 14 0\<rparr>)) = Inr True \<and>
   hw_breakpoint (snd (cortexa_attach ((probed_target 2 (\<lambda>n. if n = 5 then Resp 1 else Resp 0))
      \<lparr>hw_breakpoint := 0x1001 # 0x2001 # replicate 14 0\<rparr>))) ! 0 = 0 \<and>
   hw_breakpoint (snd (cortexa_attach ((probed_target 2 (\<lambda>n. if n = 5 then Resp 1 else Resp 0))
      \<lparr>hw_breakpoint := 0x1001 # 0x2001 # replicate 14 0\<rparr>))) ! 1 = 0"
proof -
  let ?t = "(probed_target 2 (\<lambda>_. Resp 0))
      \<lparr>hw_breakpoint := 0x1001 # 0x2001 # replicate 14 0\<rparr>"
  let ?u = "(probed_target 2 (\<lambda>_. Resp 0))
      \<lparr>hw_breakpoint := 0x1001 # 0x2001 # replicate 14 0, srst_val := (\<lambda>n. 3 \<le> n)\<rparr>"
  let ?h = "(probed_target 2 (\<lambda>n. if n = 5 then Resp 1 else Resp 0))
      \<lparr>hw_breakpoint := 0x1001 # 0x2001 # replicate 14 0\<rparr>"
  have okt: "target_ok ?t" and oku: "target_ok ?u" and okh: "target_ok ?h"
    by (simp_all add: target_ok_def probed_target_def)
  have pt: "attach_prelude_ok ?t" and pu: "attach_prelude_ok ?u" and ph: "attach_prelude_ok ?h"
    by (simp_all add: attach_prelude_ok_def apb_ok_def probed_target_def)
  note A = attach_correct[OF okt pt]
  note B = attach_correct[OF oku pu]
  note H = attach_correct[OF okh ph]
  have C: "\<forall>j<10. \<not> srst_val ?t (srst_count ?t + j) \<and>
               not_halted (apb_resp ?t (apb_count ?t + 3 + j))"
    by (simp add: probed_target_def not_halted_def)
  have 1: "fst (cortexa_attach ?t) = Inr False"
    using A[THEN conjunct2, THEN conjunct1] C by blast
  note A2 = A[THEN conjunct2, THEN conjunct2, THEN conjunct1, THEN mp, OF C]
  have 2: "hw_breakpoint (snd (cortexa_attach ?t)) = 0x1001 # 0x2001 # replicate 14 0"
    using A2[THEN conjunct1] by simp
  have bt: "base ?t = 0x80090000" by (simp add: probed_target_def)
  have prel: "attach_prelude_requests ?t =
      [Apb_read 0x80090088, Apb_write 0x80090088 0x106000, Apb_write 0x80090090 1]"
    by (simp add: attach_prelude_requests_def probed_target_def DBGDSCR_def DBGDRCR_def
          DBGDSCR_HDBGEN_def DBGDSCR_ITREN_def DBGDSCR_EXTDCCMODE_MASK_def
          DBGDSCR_EXTDCCMODE_STALL_def DBGDRCR_HRQ_def)
  have 3: "new_requests ?t (snd (cortexa_attach ?t)) =
     [Apb_read 0x80090088, Apb_write 0x80090088 0x106000, Apb_write 0x80090090 1] @
     failed_polls 0x80090000 10"
    using A2[THEN conjunct2, THEN conjunct2] unfolding prel bt .
  have h: "(\<forall>j<3. \<not> srst_val ?u (srst_count ?u + j) \<and>
                   not_halted (apb_resp ?u (apb_count ?u + 3 + j))) \<and>
            srst_val ?u (srst_count ?u + 3) \<and>
            (\<forall>i<hw_breakpoint_max ?u. \<exists>v. apb_resp ?u (apb_count ?u + 3 + 3 + i) = Resp v)"
    by (simp add: probed_target_def not_halted_def)
  have 4: "fst (cortexa_attach ?u) = Inr True"
    using B[THEN conjunct2, THEN conjunct2, THEN conjunct2, THEN conjunct1, rule_format, of 3] h
    by simp
  then have equ: "cortexa_attach ?u = (Inr True, snd (cortexa_attach ?u))"
    by (simp add: prod_eq_iff)
  note D = B[THEN conjunct2, THEN conjunct2, THEN conjunct2, THEN conjunct2, THEN conjunct2,
             rule_format, OF equ]
  have mu: "hw_breakpoint_max ?u = 2" by (simp add: probed_target_def)
  have mu': "hw_breakpoint_max (snd (cortexa_attach ?u)) = 2" using D mu by simp
  have 5: "hw_breakpoint (snd (cortexa_attach ?u)) ! 0 = 0"
    "hw_breakpoint (snd (cortexa_attach ?u)) ! 1 = 0"
    using D mu' by simp_all
  have nh: "\<not> not_halted (apb_resp ?h 5)"
    by (simp add: probed_target_def not_halted_def DBGDSCR_HALTED_def)
  have g: "(\<forall>j<2. \<not> srst_val ?h (srst_count ?h + j) \<and>
                   not_halted (apb_resp ?h (apb_count ?h + 3 + j))) \<and>
            \<not> srst_val ?h (srst_count ?h + 2) \<and>
            \<not> not_halted (apb_resp ?h (apb_count ?h + 3 + 2)) \<and>
            (\<forall>i<121 + hw_breakpoint_max ?h.
                \<exists>v. apb_resp ?h (apb_count ?h + 3 + 2 + i) = Resp v)"
    by (simp add: probed_target_def not_halted_def DBGDSCR_HALTED_def)
  have 6: "fst (cortexa_attach ?h) = Inr True"
    using H[THEN conjunct2, THEN conjunct2, THEN conjunct2, THEN conjunct2, THEN conjunct1,
            rule_format, of 2] g
    by simp
  then have eqh: "cortexa_attach ?h = (Inr True, snd (cortexa_attach ?h))"
    by (simp add: prod_eq_iff)
  note E = H[THEN conjunct2, THEN conjunct2, THEN conjunct2, THEN conjunct2, THEN conjunct2,
             rule_format, OF eqh]
  have mh: "hw_breakpoint_max ?h = 2" by (simp add: probed_target_def)
  have mh': "hw_breakpoint_max (snd (cortexa_attach ?h)) = 2" using E mh by simp
  have 7: "hw_breakpoint (snd (cortexa_attach ?h)) ! 0 = 0"
    "hw_breakpoint (snd (cortexa_attach ?h)) ! 1 = 0"
    using E mh' by simp_all
  show ?thesis by (intro conjI okt pt 1 2 3 oku pu 4 5 okh ph nh 6 7)
qed

end
